theory Spec2Isabelle
  imports Main "HOL-Library.AList" "HOL-Library.Sublist"
begin

section \<open>The reverse proxy (\<^verbatim>\<open>reverseProxy\<close>, both variants in \<^verbatim>\<open>src/sources/server.ts\<close>)\<close>

text \<open>
  JavaScript strings are modelled as \<^typ>\<open>string\<close>. The pattern and every literal
  the code compares with are ASCII, so the code units the pattern inspects are
  the characters inspected here. \<^verbatim>\<open>s.indexOf(p) == 0\<close> is \<^term>\<open>prefix p s\<close>.
  A value that may be \<^verbatim>\<open>undefined\<close> or \<^verbatim>\<open>null\<close> is an \<^typ>\<open>'a option\<close>.
\<close>

subsection \<open>The pattern \<^verbatim>\<open>\/_proxy\/([0-9]+)($|\/)\<close>\<close>

definition isDigit :: "char \<Rightarrow> bool" where
  "isDigit c = (c \<in> set ''0123456789'')"

fun strip_prefix :: "string \<Rightarrow> string \<Rightarrow> string option" where
  "strip_prefix [] s = Some s"
| "strip_prefix (p # ps) [] = None"
| "strip_prefix (p # ps) (c # cs) = (if p = c then strip_prefix ps cs else None)"

text \<open>
  An attempt of the pattern at the start of \<open>s\<close>: the literal \<^verbatim>\<open>/_proxy/\<close>,
  then the longest run of digits (\<^verbatim>\<open>[0-9]+\<close> is greedy, and giving a digit back
  never helps: the next character would be a digit, neither the end nor a slash),
  then the end of the input or a slash. The result is group 1, group 2 and the
  text after the match.
\<close>

definition match_here :: "string \<Rightarrow> (string \<times> string \<times> string) option" where
  "match_here s =
     (case strip_prefix ''/_proxy/'' s of
        None \<Rightarrow> None
      | Some r \<Rightarrow>
          (let ds = takeWhile isDigit r; r' = dropWhile isDigit r in
           if ds = [] then None
           else (case r' of
                   [] \<Rightarrow> Some (ds, [], [])
                 | c # r'' \<Rightarrow> if c = CHR ''/'' then Some (ds, [c], r'') else None)))"

text \<open>
  \<^verbatim>\<open>regex.exec(s)\<close>: the pattern has no flag, so the search starts at index 0 on
  every call and returns the leftmost match. The result is the text before the
  match, group 1 (the digits), group 2 (empty or a slash) and the text after.
\<close>

fun regex_exec :: "string \<Rightarrow> (string \<times> string \<times> string \<times> string) option" where
  "regex_exec [] = None"
| "regex_exec (c # cs) =
     (case match_here (c # cs) of
        Some (ds, t, a) \<Rightarrow> Some ([], ds, t, a)
      | None \<Rightarrow>
          (case regex_exec cs of
             None \<Rightarrow> None
           | Some (b, ds, t, a) \<Rightarrow> Some (c # b, ds, t, a)))"

text \<open>\<^verbatim>\<open>s.replace(regex, '')\<close>: the first match is cut out, the rest is kept.\<close>

definition replace_regex :: "string \<Rightarrow> string" where
  "replace_regex s = (case regex_exec s of None \<Rightarrow> s | Some (b, ds, t, a) \<Rightarrow> b @ a)"

subsection \<open>\<^verbatim>\<open>getPort\<close> and \<^verbatim>\<open>getRequestPort\<close>\<close>

text \<open>\<^verbatim>\<open>if (url)\<close> fails for \<^verbatim>\<open>undefined\<close>, \<^verbatim>\<open>null\<close> and the empty string.\<close>

definition getPort :: "string option \<Rightarrow> string option" where
  "getPort url =
     (case url of
        None \<Rightarrow> None
      | Some u \<Rightarrow>
          if u = [] then None
          else (case regex_exec u of None \<Rightarrow> None | Some (b, ds, t, a) \<Rightarrow> Some ds))"

definition truthy :: "string option \<Rightarrow> bool" where
  "truthy v = (case v of None \<Rightarrow> False | Some s \<Rightarrow> s \<noteq> [])"

definition js_or :: "string option \<Rightarrow> string option \<Rightarrow> string option" where
  "js_or a b = (if truthy a then a else b)"

subsection \<open>Requests\<close>

text \<open>
  An incoming request, as far as the code reads it: \<^verbatim>\<open>request.url\<close> and the
  two headers \<^verbatim>\<open>request.headers.origin\<close> and \<^verbatim>\<open>request.headers.referer\<close>
  (\<^verbatim>\<open>undefined\<close> when the header is absent).
\<close>

record http_request =
  req_url :: string
  header_origin :: "string option"
  header_referer :: "string option"

text \<open>
  Modelled from the spec: \<^verbatim>\<open>util.headerAsString\<close> is imported from a module that
  is not among the sources. The spec applies the extraction to ``the Referer
  header value'' and looks up ``the request's Origin header'' itself, so the
  conversion hands the header's value on unchanged, and an absent header stays
  absent.
\<close>

definition headerAsString :: "string option \<Rightarrow> string option" where
  "headerAsString h = h"

text \<open>
  The first definition is the variant of lines 297-315, the second the variant
  of lines 217-240, whose \<open>socketioPort\<close> is \<^verbatim>\<open>String(settings.socketioPort)\<close>.
\<close>

definition getRequestPort :: "http_request \<Rightarrow> string \<Rightarrow> string option" where
  "getRequestPort request path =
     (let referer = headerAsString (header_referer request) in
      js_or (getPort (Some path)) (getPort referer))"

definition getRequestPort_socketio :: "string \<Rightarrow> http_request \<Rightarrow> string \<Rightarrow> string option" where
  "getRequestPort_socketio socketioPort request path =
     (let referer = headerAsString (header_referer request);
          p = js_or (getPort (Some path)) (getPort referer) in
      if \<not> truthy p then
        (if prefix ''/socket.io/'' path then Some socketioPort else p)
      else p)"

subsection \<open>\<^verbatim>\<open>handleRequest\<close> of the reverse proxy\<close>

text \<open>
  The function rewrites \<^verbatim>\<open>request.url\<close> and hands the request to
  \<^verbatim>\<open>proxy.web\<close> with a target; the model returns the rewritten request and
  the target. The first definition is the variant of lines 320-329, the second
  the variant of lines 245-258.
\<close>

definition reverseProxy_handleRequest :: "http_request \<Rightarrow> string \<Rightarrow> http_request \<times> string" where
  "reverseProxy_handleRequest request p =
     (request\<lparr>req_url := replace_regex (req_url request)\<rparr>, ''http://localhost:'' @ p)"

definition reverseProxy_handleRequest_socketio ::
  "string \<Rightarrow> http_request \<Rightarrow> string \<Rightarrow> http_request \<times> string" where
  "reverseProxy_handleRequest_socketio basePath request p =
     (let request' = request\<lparr>req_url := replace_regex (req_url request)\<rparr>;
          tgt = ''http://localhost:'' @ p in
      (request', if prefix ''/socket.io/'' (req_url request') then tgt @ basePath else tgt))"

text \<open>
  The spec's words for the same operation, for comparison: only the segment
  \<^verbatim>\<open>/_proxy/<port>\<close> is taken out, so the slash that ends the match stays.
\<close>

definition spec_strip_segment :: "string \<Rightarrow> string" where
  "spec_strip_segment s = (case regex_exec s of None \<Rightarrow> s | Some (b, ds, t, a) \<Rightarrow> b @ t @ a)"

section \<open>The request router (\<^verbatim>\<open>server.ts\<close>, both variants)\<close>

text \<open>
  The router decides which handler receives a request; the model returns that
  decision. \<open>urlpath\<close> is \<^verbatim>\<open>url.parse(request.url, true).pathname\<close>, computed
  by Node's \<^verbatim>\<open>url\<close> module and taken as an input here.
\<close>

datatype handled = ToJupyter | NotFound | BasePathReply

text \<open>\<^verbatim>\<open>handleRequest\<close> of \<^verbatim>\<open>src/sources/server.ts\<close>, lines 73-101.\<close>

definition server_handleRequest :: "string \<Rightarrow> handled" where
  "server_handleRequest requestPath =
     (if requestPath = ''/'' \<or>
         prefix ''/api'' requestPath \<or>
         prefix ''/tree'' requestPath \<or>
         prefix ''/notebooks'' requestPath \<or>
         prefix ''/nbconvert'' requestPath \<or>
         prefix ''/nbextensions'' requestPath \<or>
         prefix ''/files'' requestPath \<or>
         prefix ''/edit'' requestPath \<or>
         prefix ''/terminals'' requestPath \<or>
         prefix ''/sessions'' requestPath \<or>
         prefix ''/static'' requestPath
      then ToJupyter else NotFound)"

text \<open>\<^verbatim>\<open>handleRequest\<close> of \<^verbatim>\<open>src/sources/web/datalab/server.ts\<close>, lines 90-127.\<close>

definition datalab_handleRequest :: "string \<Rightarrow> handled" where
  "datalab_handleRequest requestPath =
     (if prefix ''/api/basepath'' requestPath then BasePathReply
      else if requestPath = ''/'' \<or>
         prefix ''/api'' requestPath \<or>
         prefix ''/tree'' requestPath \<or>
         prefix ''/notebooks'' requestPath \<or>
         prefix ''/nbconvert'' requestPath \<or>
         prefix ''/nbextensions'' requestPath \<or>
         prefix ''/files'' requestPath \<or>
         prefix ''/edit'' requestPath \<or>
         prefix ''/terminals'' requestPath \<or>
         prefix ''/sessions'' requestPath
      then ToJupyter else NotFound)"

datatype dispatch =
    SocketIo
  | ReverseProxy string
  | StaticHandler
  | HandleRequest handled

text \<open>
  \<^verbatim>\<open>uncheckedRequestHandler\<close> of \<^verbatim>\<open>src/sources/server.ts\<close>, lines 113-127.
  \<^verbatim>\<open>sockets.isSocketIoPath\<close> is imported from a module that is not among the
  sources and is a parameter; \<open>rp\<close> is the \<^verbatim>\<open>getRequestPort\<close> of the
  \<^verbatim>\<open>reverseProxy\<close> module in use. \<^verbatim>\<open>if (reverseProxyPort)\<close> holds for a
  non-empty string.
\<close>

definition uncheckedRequestHandler ::
  "(string \<Rightarrow> bool) \<Rightarrow> (http_request \<Rightarrow> string \<Rightarrow> string option) \<Rightarrow>
   http_request \<Rightarrow> string \<Rightarrow> dispatch" where
  "uncheckedRequestHandler isSocketIoPath rp request urlpath =
     (let reverseProxyPort = rp request urlpath in
      if isSocketIoPath urlpath then SocketIo
      else (case reverseProxyPort of
              None \<Rightarrow> HandleRequest (server_handleRequest urlpath)
            | Some p \<Rightarrow>
                if p \<noteq> [] then ReverseProxy p
                else HandleRequest (server_handleRequest urlpath)))"

text \<open>\<^verbatim>\<open>uncheckedRequestHandler\<close> of \<^verbatim>\<open>src/sources/web/datalab/server.ts\<close>, lines 139-154.\<close>

definition datalab_uncheckedRequestHandler ::
  "(http_request \<Rightarrow> string \<Rightarrow> string option) \<Rightarrow> http_request \<Rightarrow> string \<Rightarrow> dispatch" where
  "datalab_uncheckedRequestHandler rp request urlpath =
     (let reverseProxyPort = rp request urlpath in
      case reverseProxyPort of
        None \<Rightarrow>
          if prefix ''/static'' urlpath then StaticHandler
          else HandleRequest (datalab_handleRequest urlpath)
      | Some p \<Rightarrow>
          if p \<noteq> [] then ReverseProxy p
          else if prefix ''/static'' urlpath then StaticHandler
          else HandleRequest (datalab_handleRequest urlpath))"

subsection \<open>WebSocket upgrades\<close>

definition httpOverWebSocketPath :: string where
  "httpOverWebSocketPath = ''/http_over_websocket''"

datatype upgrade = HandleSocket | NotProxied

text \<open>
  \<^verbatim>\<open>socketHandler\<close> of \<^verbatim>\<open>src/sources/server.ts\<close>, lines 132-138; \<open>pathname\<close> is
  \<^verbatim>\<open>url.parse(request.url, true).pathname\<close>.
\<close>

definition socketHandler :: "string \<Rightarrow> upgrade" where
  "socketHandler pathname =
     (if pathname \<noteq> httpOverWebSocketPath then HandleSocket else NotProxied)"

text \<open>
  \<^verbatim>\<open>trimBasePath\<close> and \<^verbatim>\<open>socketHandler\<close> of
  \<^verbatim>\<open>src/sources/web/datalab/server.ts\<close>, lines 159-175: the handler stores the
  trimmed URL in the request and compares the whole of it with the path.
\<close>

definition trimBasePath :: "string \<Rightarrow> string \<Rightarrow> string" where
  "trimBasePath pathPrefix requestPath =
     (if prefix pathPrefix requestPath
      then ''/'' @ drop (length pathPrefix) requestPath
      else requestPath)"

definition datalab_socketHandler :: "string \<Rightarrow> http_request \<Rightarrow> http_request \<times> upgrade" where
  "datalab_socketHandler pathPrefix request =
     (let request' = request\<lparr>req_url := trimBasePath pathPrefix (req_url request)\<rparr> in
      (request',
       if req_url request' \<noteq> httpOverWebSocketPath then HandleSocket else NotProxied))"

section \<open>The backend supervisor (\<^verbatim>\<open>jupyter.ts\<close> and \<^verbatim>\<open>src/unnamed/part_000\<close>)\<close>

text \<open>
  \<^verbatim>\<open>jupyter.ts\<close> keeps one server per user id in the object \<^verbatim>\<open>jupyterServers\<close>;
  \<^verbatim>\<open>part_000\<close> is the same module with the user id removed: one variable
  \<^verbatim>\<open>jupyterServer\<close> and a callback manager without ids. The model has the key
  type \<open>'k\<close> as a parameter: \<^typ>\<open>string\<close> for \<^verbatim>\<open>jupyter.ts\<close>, \<^typ>\<open>unit\<close> for
  \<^verbatim>\<open>part_000\<close>, whose \<^verbatim>\<open>jupyterServer\<close> is the entry of the only key. The
  own properties of the object are an association list in the order they were
  added.

  A child process is known by a handle, the identity of the \<^verbatim>\<open>ChildProcess\<close>
  object that \<^verbatim>\<open>spawn\<close> returns. Callbacks are values of a type \<open>'cb\<close>; calling
  one is an action of the trace. The callbacks the router passes
  (\<^verbatim>\<open>handleJupyterRequest\<close>, \<^verbatim>\<open>startInitializationForUser\<close>) come back to the
  supervisor only through \<^verbatim>\<open>getPort\<close> and \<^verbatim>\<open>handleRequest\<close>, which leave its
  state as it is. The node event loop runs one handler at a time, so the state
  changes by whole handlers: a call of \<^verbatim>\<open>startForUser\<close>, the fulfilment or the
  rejection of a promise of \<^verbatim>\<open>waitUntilUsedOnHost\<close>, an \<^verbatim>\<open>exit\<close> event of a
  child, a call of \<^verbatim>\<open>close\<close>. Log lines are left out.
\<close>

type_synonym handle = nat

datatype error = TypeError | Thrown string

record AppSettings =
  datalabBasePath :: string
  nextJupyterPort :: nat
  allowOriginOverrides :: "string list"

record 'k JupyterServer =
  userId :: 'k
  port :: nat
  notebooks :: string
  childProcess :: handle
  proxy :: "nat \<times> string"

text \<open>
  A pending promise of \<^verbatim>\<open>tcp.waitUntilUsedOnHost(port, host, retryTimeMs, timeOutMs)\<close>
  with the server its two handlers close over.
\<close>

record 'k readiness_wait =
  waitServer :: "'k JupyterServer"
  waitHost :: string
  retryTimeMs :: nat
  timeOutMs :: nat

record ('k, 'cb) supervisor =
  jupyterServers :: "('k \<times> 'k JupyterServer) list"
  callbackManager :: "'k \<rightharpoonup> 'cb list"
  readinessWaits :: "'k readiness_wait list"
  exitHandlers :: "'k JupyterServer list"
  nextHandle :: handle

datatype ('k, 'cb) action =
    Spawn handle 'k nat string
  | Invoke 'k 'cb "error option"
  | NextTick 'cb
  | Kill handle string

text \<open>
  What the surroundings answer during one call of \<^verbatim>\<open>startForUser\<close>: the directory
  \<^verbatim>\<open>settings.getUserDir\<close> returns or the error it throws, \<^verbatim>\<open>fs.existsSync\<close>,
  whether \<^verbatim>\<open>fs.mkdirSync\<close> throws, and the error \<^verbatim>\<open>childProcess.spawn\<close> throws,
  if it throws.
\<close>

record start_env =
  userDir :: "error + string"
  dirExists :: bool
  mkdirThrows :: bool
  spawnThrows :: "error option"

definition init_supervisor :: "('k, 'cb) supervisor" where
  "init_supervisor =
     \<lparr>jupyterServers = [], callbackManager = Map.empty, readinessWaits = [],
      exitHandlers = [], nextHandle = 0\<rparr>"

subsection \<open>Reading the object\<close>

text \<open>
  \<^verbatim>\<open>jupyterServers\<close> is a plain object, created as \<^verbatim>\<open>{}\<close>. The expression
  \<^verbatim>\<open>jupyterServers[userId]\<close> answers with the own property of that name, and
  for a name the object does not hold, with what its prototype
  \<^verbatim>\<open>Object.prototype\<close> holds under that name. The model keeps of the answer
  whether it is a stored server or an inherited value; the inherited values
  (functions, and the prototype itself for \<^verbatim>\<open>__proto__\<close>) are all truthy. Which
  names are inherited is the parameter \<open>inherited\<close> of the functions that read
  the object with a name they are given: \<open>objectPrototype\<close> for \<^verbatim>\<open>jupyter.ts\<close>,
  \<open>noPrototype\<close> for the variable of \<^verbatim>\<open>part_000\<close>.
\<close>

datatype 'k property = Own "'k JupyterServer" | Inherited

definition lookup ::
  "('k \<Rightarrow> bool) \<Rightarrow> ('k \<times> 'k JupyterServer) list \<Rightarrow> 'k \<Rightarrow> 'k property option" where
  "lookup inherited servers n =
     (case map_of servers n of
        Some server \<Rightarrow> Some (Own server)
      | None \<Rightarrow> if inherited n then Some Inherited else None)"

definition objectPrototype :: "string \<Rightarrow> bool" where
  "objectPrototype n \<longleftrightarrow>
     n \<in> set [''constructor'', ''toString'', ''toLocaleString'', ''valueOf'',
               ''hasOwnProperty'', ''isPrototypeOf'', ''propertyIsEnumerable'',
               ''__defineGetter__'', ''__defineSetter__'', ''__lookupGetter__'',
               ''__lookupSetter__'', ''__proto__'']"

definition noPrototype :: "unit \<Rightarrow> bool" where
  "noPrototype n \<longleftrightarrow> False"

subsection \<open>The callback manager\<close>

text \<open>
  Modelled from the spec: the module \<^verbatim>\<open>callbacks\<close> with the class
  \<^verbatim>\<open>CallbackManager\<close> is not among the sources. The spec's coordinator
  (section 4.1): ``If no start is in flight for \<open>key\<close>, registers \<open>callback\<close> as the
  sole waiter and returns true. If a start is already in flight, appends
  \<open>callback\<close> to the waiter list and returns false.''
\<close>

definition checkOngoingAndRegisterCallback ::
  "'k \<Rightarrow> 'cb \<Rightarrow> ('k, 'cb) supervisor \<Rightarrow> bool \<times> ('k, 'cb) supervisor" where
  "checkOngoingAndRegisterCallback k cb s =
     (case callbackManager s k of
        None \<Rightarrow> (True, s\<lparr>callbackManager := (callbackManager s)(k \<mapsto> [cb])\<rparr>)
      | Some cbs \<Rightarrow> (False, s\<lparr>callbackManager := (callbackManager s)(k \<mapsto> cbs @ [cb])\<rparr>))"

text \<open>
  Modelled from the spec: \<^verbatim>\<open>invokeAllCallbacks\<close> of the same class. The spec
  (section 4.1): it ``invokes every registered callback for \<open>key\<close> exactly once,
  in registration order, with the same \<open>error\<close> value (or none on success), then
  clears the waiter list for \<open>key\<close>''.
\<close>

definition invokeAllCallbacks ::
  "'k \<Rightarrow> error option \<Rightarrow> ('k, 'cb) supervisor \<Rightarrow> ('k, 'cb) supervisor \<times> ('k, 'cb) action list" where
  "invokeAllCallbacks k err s =
     (s\<lparr>callbackManager := (callbackManager s)(k := None)\<rparr>,
      map (\<lambda>cb. Invoke k cb err) (case callbackManager s k of None \<Rightarrow> [] | Some cbs \<Rightarrow> cbs))"

subsection \<open>Starting a server\<close>

text \<open>
  \<^verbatim>\<open>createJupyterServerAtPort\<close>: \<^verbatim>\<open>spawn\<close> either throws, before anything is
  changed, or returns the process; then the exit handler is attached and the
  promise is pending. The argument list of the process, the piping of its
  output and the log lines change nothing the supervisor reads again and are
  left out; the \<^verbatim>\<open>Spawn\<close> action carries the values the arguments are built of.
\<close>

definition createJupyterServerAtPort ::
  "AppSettings \<Rightarrow> nat \<Rightarrow> 'k \<Rightarrow> string \<Rightarrow> start_env \<Rightarrow> ('k, 'cb) supervisor \<Rightarrow>
   error + (('k, 'cb) supervisor \<times> ('k, 'cb) action list)" where
  "createJupyterServerAtPort appSettings p uid dir env s =
     (case spawnThrows env of
        Some e \<Rightarrow> Inl e
      | None \<Rightarrow>
          (let server = \<lparr>userId = uid, port = p, notebooks = dir,
                         childProcess = nextHandle s,
                         proxy = (p, datalabBasePath appSettings)\<rparr>;
               w = \<lparr>waitServer = server, waitHost = ''localhost'',
                    retryTimeMs = 100, timeOutMs = 15000\<rparr>
           in Inr (s\<lparr>readinessWaits := readinessWaits s @ [w],
                     exitHandlers := exitHandlers s @ [server],
                     nextHandle := Suc (nextHandle s)\<rparr>,
                   [Spawn (nextHandle s) uid p dir])))"

text \<open>
  \<^verbatim>\<open>createJupyterServer\<close>: an error of \<^verbatim>\<open>getUserDir\<close> leaves the function; an
  error of \<^verbatim>\<open>mkdirSync\<close> is caught and the directory falls back to
  \<^verbatim>\<open>/content\<close>; an error of \<^verbatim>\<open>createJupyterServerAtPort\<close> is caught and given
  to the callbacks.
\<close>

definition createJupyterServer ::
  "AppSettings \<Rightarrow> 'k \<Rightarrow> start_env \<Rightarrow> ('k, 'cb) supervisor \<Rightarrow>
   error + (('k, 'cb) supervisor \<times> ('k, 'cb) action list)" where
  "createJupyterServer appSettings uid env s =
     (case userDir env of
        Inl e \<Rightarrow> Inl e
      | Inr d \<Rightarrow>
          (let dir = (if \<not> dirExists env \<and> mkdirThrows env then ''/content'' else d);
               p = (if nextJupyterPort appSettings = 0 then 9000
                    else nextJupyterPort appSettings)
           in case createJupyterServerAtPort appSettings p uid dir env s of
                Inl e \<Rightarrow> Inr (invokeAllCallbacks uid (Some e) s)
              | Inr r \<Rightarrow> Inr r))"

text \<open>
  \<^verbatim>\<open>startForUser\<close>, lines 168-189 (\<^verbatim>\<open>start\<close> of \<^verbatim>\<open>part_000\<close>, lines 164-184):
  \<^verbatim>\<open>if (server)\<close> holds for a stored server and for an inherited value alike.
\<close>

definition startForUser ::
  "('k \<Rightarrow> bool) \<Rightarrow> AppSettings \<Rightarrow> 'k \<Rightarrow> 'cb \<Rightarrow> start_env \<Rightarrow> ('k, 'cb) supervisor \<Rightarrow>
   ('k, 'cb) supervisor \<times> ('k, 'cb) action list" where
  "startForUser inherited appSettings uid cb env s =
     (case lookup inherited (jupyterServers s) uid of
        Some server \<Rightarrow> (s, [NextTick cb])
      | None \<Rightarrow>
          (case checkOngoingAndRegisterCallback uid cb s of
             (False, s1) \<Rightarrow> (s1, [])
           | (True, s1) \<Rightarrow>
               (case createJupyterServer appSettings uid env s1 of
                  Inl e \<Rightarrow> invokeAllCallbacks uid (Some e) s1
                | Inr r \<Rightarrow> r)))"

subsection \<open>The handlers of the promise and of the exit event\<close>

definition find_wait :: "handle \<Rightarrow> ('k, 'cb) supervisor \<Rightarrow> 'k readiness_wait option" where
  "find_wait h s = find (\<lambda>w. childProcess (waitServer w) = h) (readinessWaits s)"

definition drop_wait :: "handle \<Rightarrow> ('k, 'cb) supervisor \<Rightarrow> ('k, 'cb) supervisor" where
  "drop_wait h s =
     s\<lparr>readinessWaits := filter (\<lambda>w. childProcess (waitServer w) \<noteq> h) (readinessWaits s)\<rparr>"

text \<open>
  The first function given to \<^verbatim>\<open>then\<close>: the port answered. The assignment
  \<^verbatim>\<open>jupyterServers[userId] = server\<close> makes or replaces an own property for
  every name but \<^verbatim>\<open>__proto__\<close>, for which it would replace the prototype. A
  wait is only made by a start that found nothing under the name, so no wait
  has an inherited name (lemma \<open>inv_waitD\<close>), and the model has the own
  property only.
\<close>

definition waitFulfilled ::
  "handle \<Rightarrow> ('k, 'cb) supervisor \<Rightarrow> ('k, 'cb) supervisor \<times> ('k, 'cb) action list" where
  "waitFulfilled h s =
     (case find_wait h s of
        None \<Rightarrow> (s, [])
      | Some w \<Rightarrow>
          (let server = waitServer w;
               s1 = drop_wait h s;
               s2 = s1\<lparr>jupyterServers := AList.update (userId server) server (jupyterServers s1)\<rparr>
           in invokeAllCallbacks (userId server) None s2))"

text \<open>The second function given to \<^verbatim>\<open>then\<close>: the wait failed with \<open>e\<close>.\<close>

definition waitRejected ::
  "handle \<Rightarrow> error \<Rightarrow> ('k, 'cb) supervisor \<Rightarrow> ('k, 'cb) supervisor \<times> ('k, 'cb) action list" where
  "waitRejected h e s =
     (case find_wait h s of
        None \<Rightarrow> (s, [])
      | Some w \<Rightarrow> invokeAllCallbacks (userId (waitServer w)) (Some e) (drop_wait h s))"

text \<open>
  \<^verbatim>\<open>exitHandler\<close>, lines 76-80: a log line and \<^verbatim>\<open>delete jupyterServers[server.userId]\<close>.
  The event fires once for a process.
\<close>

definition exitHandler ::
  "handle \<Rightarrow> ('k, 'cb) supervisor \<Rightarrow> ('k, 'cb) supervisor \<times> ('k, 'cb) action list" where
  "exitHandler h s =
     (case find (\<lambda>server. childProcess server = h) (exitHandlers s) of
        None \<Rightarrow> (s, [])
      | Some server \<Rightarrow>
          (s\<lparr>exitHandlers := filter (\<lambda>server. childProcess server \<noteq> h) (exitHandlers s),
             jupyterServers := AList.delete (userId server) (jupyterServers s)\<rparr>, []))"

subsection \<open>\<^verbatim>\<open>getPort\<close> and \<^verbatim>\<open>close\<close>\<close>

text \<open>
  \<^verbatim>\<open>getPort\<close> of \<^verbatim>\<open>jupyter.ts\<close>, lines 159-163, and of \<^verbatim>\<open>part_000\<close>, lines
  157-159. The model returns the state with the result. The name
  \<^verbatim>\<open>anonymous\<close> is not one that the object inherits, so reading it finds the
  own property or nothing (lemma \<open>lookup_anonymous\<close>).
\<close>

definition jupyter_getPort ::
  "http_request \<Rightarrow> (string, 'cb) supervisor \<Rightarrow> nat \<times> (string, 'cb) supervisor" where
  "jupyter_getPort request s =
     (case map_of (jupyterServers s) ''anonymous'' of
        None \<Rightarrow> (0, s)
      | Some server \<Rightarrow> (port server, s))"

definition jupyterServer :: "(unit, 'cb) supervisor \<Rightarrow> unit JupyterServer option" where
  "jupyterServer s = map_of (jupyterServers s) ()"

definition jupyter_getPort_single ::
  "http_request \<Rightarrow> (unit, 'cb) supervisor \<Rightarrow> nat \<times> (unit, 'cb) supervisor" where
  "jupyter_getPort_single request s =
     (case jupyterServer s of
        None \<Rightarrow> (0, s)
      | Some server \<Rightarrow> (port server, s))"

text \<open>
  \<^verbatim>\<open>close\<close> of \<^verbatim>\<open>jupyter.ts\<close>, lines 201-214. \<open>killThrows\<close> says for which
  processes \<^verbatim>\<open>kill\<close> throws; the \<^verbatim>\<open>catch\<close> is empty, so the loop goes on.
  \<open>forIn\<close> is the order in which \<^verbatim>\<open>for (var n in jupyterServers)\<close> visits the own
  properties: the engine puts the names that are array indices first, in
  rising order, and then the other names in the order they were added. It is
  an answer of the surroundings, a rearrangement of the entries.
\<close>

fun close_loop ::
  "(handle \<Rightarrow> error option) \<Rightarrow> ('k \<times> 'k JupyterServer) list \<Rightarrow> ('k, 'cb) action list" where
  "close_loop killThrows [] = []"
| "close_loop killThrows ((n, server) # rest) =
     (case killThrows (childProcess server) of
        Some e \<Rightarrow> Kill (childProcess server) ''SIGHUP'' # close_loop killThrows rest
      | None \<Rightarrow> Kill (childProcess server) ''SIGHUP'' # close_loop killThrows rest)"

definition close ::
  "(('k \<times> 'k JupyterServer) list \<Rightarrow> ('k \<times> 'k JupyterServer) list) \<Rightarrow>
   (handle \<Rightarrow> error option) \<Rightarrow> ('k, 'cb) supervisor \<Rightarrow>
   error + (('k, 'cb) supervisor \<times> ('k, 'cb) action list)" where
  "close forIn killThrows s =
     Inr (s\<lparr>jupyterServers := []\<rparr>, close_loop killThrows (forIn (jupyterServers s)))"

text \<open>
  \<^verbatim>\<open>close\<close> of \<^verbatim>\<open>part_000\<close>, lines 196-206: the field \<^verbatim>\<open>childProcess\<close> is read
  before the \<^verbatim>\<open>try\<close>, and reading a field of \<^verbatim>\<open>null\<close> throws a TypeError.
  The error leaves the state as it is, without a server, so the state after
  this \<^verbatim>\<open>close\<close> is in every case the state after the \<^verbatim>\<open>close\<close> above
  (lemma \<open>close_single_state\<close>), which the runs below use for both modules.
\<close>

definition close_single ::
  "(handle \<Rightarrow> error option) \<Rightarrow> (unit, 'cb) supervisor \<Rightarrow>
   error + ((unit, 'cb) supervisor \<times> (unit, 'cb) action list)" where
  "close_single killThrows s =
     (case jupyterServer s of
        None \<Rightarrow> Inl TypeError
      | Some server \<Rightarrow>
          (case killThrows (childProcess server) of
             Some e \<Rightarrow> Inr (s\<lparr>jupyterServers := []\<rparr>, [Kill (childProcess server) ''SIGHUP''])
           | None \<Rightarrow> Inr (s\<lparr>jupyterServers := []\<rparr>, [Kill (childProcess server) ''SIGHUP''])))"

subsection \<open>The response filter\<close>

type_synonym headers = "string \<rightharpoonup> string"

text \<open>
  \<^verbatim>\<open>responseHandler\<close> of \<^verbatim>\<open>jupyter.ts\<close>, lines 242-258; the model returns the
  headers of \<^verbatim>\<open>proxyResponse\<close>. \<^verbatim>\<open>indexOf\<close> of an array of strings finds no
  \<^verbatim>\<open>undefined\<close>.
\<close>

definition responseHandler :: "AppSettings \<Rightarrow> http_request \<Rightarrow> headers \<Rightarrow> headers" where
  "responseHandler appSettings request hdrs =
     (if allowOriginOverrides appSettings \<noteq> [] \<and>
         (case header_origin request of
            None \<Rightarrow> False
          | Some v \<Rightarrow> v \<in> set (allowOriginOverrides appSettings))
      then hdrs(''access-control-allow-origin'' := header_origin request,
                ''access-control-allow-credentials'' \<mapsto> ''true'')
      else if hdrs ''access-control-allow-origin'' \<noteq> None
      then hdrs(''access-control-allow-origin'' := None)
      else hdrs)"

text \<open>\<^verbatim>\<open>responseHandler\<close> of \<^verbatim>\<open>part_000\<close>, lines 230-247.\<close>

definition responseHandler_single :: "AppSettings \<Rightarrow> http_request \<Rightarrow> headers \<Rightarrow> headers" where
  "responseHandler_single appSettings request hdrs =
     (let origin = headerAsString (header_origin request) in
      if allowOriginOverrides appSettings \<noteq> [] \<and>
         (case origin of
            None \<Rightarrow> False
          | Some v \<Rightarrow> v \<in> set (allowOriginOverrides appSettings))
      then hdrs(''access-control-allow-origin'' := origin,
                ''access-control-allow-credentials'' \<mapsto> ''true'')
      else if hdrs ''access-control-allow-origin'' \<noteq> None
      then hdrs(''access-control-allow-origin'' := None)
      else hdrs)"

subsection \<open>Runs of the supervisor\<close>

text \<open>
  The handlers the event loop may run, and the run of a list of them. A key is
  starting when the callback manager holds a waiter list for it, ready when
  \<^verbatim>\<open>jupyterServers\<close> holds a server for it, and absent otherwise.
\<close>

datatype ('k, 'cb) event =
    StartForUser 'k 'cb start_env
  | WaitFulfilled handle
  | WaitRejected handle error
  | ProcessExit handle
  | Close "('k \<times> 'k JupyterServer) list \<Rightarrow> ('k \<times> 'k JupyterServer) list"
      "handle \<Rightarrow> error option"

definition step ::
  "('k \<Rightarrow> bool) \<Rightarrow> AppSettings \<Rightarrow> ('k, 'cb) event \<Rightarrow> ('k, 'cb) supervisor \<Rightarrow>
   ('k, 'cb) supervisor \<times> ('k, 'cb) action list" where
  "step inherited appSettings ev s =
     (case ev of
        StartForUser uid cb env \<Rightarrow> startForUser inherited appSettings uid cb env s
      | WaitFulfilled h \<Rightarrow> waitFulfilled h s
      | WaitRejected h e \<Rightarrow> waitRejected h e s
      | ProcessExit h \<Rightarrow> exitHandler h s
      | Close forIn killThrows \<Rightarrow>
          (case close forIn killThrows s of Inl e \<Rightarrow> (s, []) | Inr r \<Rightarrow> r))"

fun run ::
  "('k \<Rightarrow> bool) \<Rightarrow> AppSettings \<Rightarrow> ('k, 'cb) event list \<Rightarrow> ('k, 'cb) supervisor \<Rightarrow>
   ('k, 'cb) supervisor \<times> ('k, 'cb) action list" where
  "run inherited appSettings [] s = (s, [])"
| "run inherited appSettings (ev # evs) s =
     (case step inherited appSettings ev s of
        (s1, out1) \<Rightarrow>
          (case run inherited appSettings evs s1 of (s2, out2) \<Rightarrow> (s2, out1 @ out2)))"

inductive reachable :: "('k \<Rightarrow> bool) \<Rightarrow> AppSettings \<Rightarrow> ('k, 'cb) supervisor \<Rightarrow> bool"
  for inherited :: "'k \<Rightarrow> bool" and appSettings :: AppSettings where
  reachable_init: "reachable inherited appSettings init_supervisor"
| reachable_step:
    "reachable inherited appSettings s \<Longrightarrow>
       reachable inherited appSettings (fst (step inherited appSettings ev s))"

text \<open>The starts that a list of events holds for a key, and what a trace holds for it.\<close>

fun callers :: "'k \<Rightarrow> ('k, 'cb) event list \<Rightarrow> 'cb list" where
  "callers k [] = []"
| "callers k (StartForUser uid cb env # evs) =
     (if uid = k then cb # callers k evs else callers k evs)"
| "callers k (ev # evs) = callers k evs"

fun is_spawn_for :: "'k \<Rightarrow> ('k, 'cb) action \<Rightarrow> bool" where
  "is_spawn_for k (Spawn h uid p dir) = (uid = k)"
| "is_spawn_for k a = False"

fun is_invoke_for :: "'k \<Rightarrow> ('k, 'cb) action \<Rightarrow> bool" where
  "is_invoke_for k (Invoke uid cb err) = (uid = k)"
| "is_invoke_for k a = False"

fun settles :: "handle \<Rightarrow> ('k, 'cb) event \<Rightarrow> bool" where
  "settles h (WaitFulfilled h') = (h' = h)"
| "settles h (WaitRejected h' e) = (h' = h)"
| "settles h ev = False"

definition waiting_keys :: "('k, 'cb) supervisor \<Rightarrow> 'k list" where
  "waiting_keys s = map (\<lambda>w. userId (waitServer w)) (readinessWaits s)"

subsection \<open>Notions used to state the properties\<close>

text \<open>The handler that settles the promise of the process \<open>h\<close> with the outcome \<open>r\<close>.\<close>

fun settle :: "handle \<Rightarrow> error option \<Rightarrow> ('k, 'cb) event" where
  "settle h None = WaitFulfilled h"
| "settle h (Some e) = WaitRejected h e"

text \<open>
  What every reachable state satisfies: no two pending waits are for the same
  key; a key with a pending wait is no inherited name, has a waiter list and
  no stored server; the handles of the pending waits and of the exit handlers
  are older than the next handle; the waits poll \<^verbatim>\<open>localhost\<close> every 100 ms for
  15000 ms; the exit handler of the process of a pending wait closes over the
  server of that wait.
\<close>

definition supervisor_inv :: "('k \<Rightarrow> bool) \<Rightarrow> ('k, 'cb) supervisor \<Rightarrow> bool" where
  "supervisor_inv inherited s \<longleftrightarrow>
     distinct (waiting_keys s) \<and>
     (\<forall>w \<in> set (readinessWaits s).
        \<not> inherited (userId (waitServer w)) \<and>
        callbackManager s (userId (waitServer w)) \<noteq> None \<and>
        map_of (jupyterServers s) (userId (waitServer w)) = None \<and>
        childProcess (waitServer w) < nextHandle s \<and>
        waitHost w = ''localhost'' \<and> retryTimeMs w = 100 \<and> timeOutMs w = 15000) \<and>
     (\<forall>server \<in> set (exitHandlers s).
        childProcess server < nextHandle s \<and>
        (\<forall>w \<in> set (readinessWaits s).
           childProcess (waitServer w) = childProcess server \<longrightarrow> waitServer w = server))"

text \<open>
  A start for the key \<open>k\<close> is in flight: the promise of the process \<open>h\<close> is
  pending for \<open>k\<close>, and \<open>cbs\<close> are the callbacks parked for \<open>k\<close>.
\<close>

definition in_flight ::
  "('k \<Rightarrow> bool) \<Rightarrow> 'k \<Rightarrow> handle \<Rightarrow> 'cb list \<Rightarrow> ('k, 'cb) supervisor \<Rightarrow> bool" where
  "in_flight inherited k h cbs s \<longleftrightarrow>
     supervisor_inv inherited s \<and> callbackManager s k = Some cbs \<and>
     (\<exists>w. find_wait h s = Some w \<and> userId (waitServer w) = k)"

text \<open>The values \<^verbatim>\<open>createJupyterServer\<close> computes for a start that spawns.\<close>

definition jupyterPort :: "AppSettings \<Rightarrow> nat" where
  "jupyterPort appSettings =
     (if nextJupyterPort appSettings = 0 then 9000 else nextJupyterPort appSettings)"

definition notebookDir :: "start_env \<Rightarrow> string \<Rightarrow> string" where
  "notebookDir env d = (if \<not> dirExists env \<and> mkdirThrows env then ''/content'' else d)"

definition new_server :: "AppSettings \<Rightarrow> 'k \<Rightarrow> start_env \<Rightarrow> string \<Rightarrow> handle \<Rightarrow> 'k JupyterServer" where
  "new_server appSettings uid env d h =
     \<lparr>userId = uid, port = jupyterPort appSettings, notebooks = notebookDir env d,
      childProcess = h, proxy = (jupyterPort appSettings, datalabBasePath appSettings)\<rparr>"

definition new_wait :: "'k JupyterServer \<Rightarrow> 'k readiness_wait" where
  "new_wait server =
     \<lparr>waitServer = server, waitHost = ''localhost'', retryTimeMs = 100, timeOutMs = 15000\<rparr>"

text \<open>The callbacks parked for a key.\<close>

definition parked :: "'k \<Rightarrow> ('k, 'cb) supervisor \<Rightarrow> 'cb list" where
  "parked k s = (case callbackManager s k of None \<Rightarrow> [] | Some cbs \<Rightarrow> cbs)"

text \<open>
  Example values: settings, the answers of a start that spawns, and the state
  after the first call of \<^verbatim>\<open>startForUser\<close> for \<^verbatim>\<open>anonymous\<close>.
\<close>

definition settings0 :: AppSettings where
  "settings0 =
     \<lparr>datalabBasePath = ''/'', nextJupyterPort = 0, allowOriginOverrides = [''https://a.example'']\<rparr>"

definition env0 :: start_env where
  "env0 =
     \<lparr>userDir = Inr ''/content/datalab'', dirExists = True, mkdirThrows = False,
      spawnThrows = None\<rparr>"

definition starting0 :: "(string, string) supervisor" where
  "starting0 =
     fst (step objectPrototype settings0 (StartForUser ''anonymous'' ''cb1'' env0)
            init_supervisor)"


section \<open>Properties of the pattern\<close>

lemma strip_prefix_Some: "strip_prefix p s = Some r \<longleftrightarrow> s = p @ r"
  by (induction p s rule: strip_prefix.induct) auto

lemma not_digit_slash: "\<not> isDigit CHR ''/''"
  by (simp add: isDigit_def)

lemma match_here_Some:
  assumes "match_here s = Some (ds, t, a)"
  shows "s = ''/_proxy/'' @ ds @ t @ a \<and> ds \<noteq> [] \<and> list_all isDigit ds \<and>
         (t = [] \<and> a = [] \<or> t = ''/'')"
proof -
  from assms obtain r where r: "strip_prefix ''/_proxy/'' s = Some r"
    by (auto simp: match_here_def split: option.splits)
  then have s: "s = ''/_proxy/'' @ r"
    using strip_prefix_Some by blast
  have split: "r = takeWhile isDigit r @ dropWhile isDigit r"
    by simp
  from assms r have ds: "ds = takeWhile isDigit r" and ne: "ds \<noteq> []"
    by (auto simp: match_here_def Let_def split: if_splits list.splits)
  from assms r have rest: "dropWhile isDigit r = t @ a" and t: "t = [] \<and> a = [] \<or> t = ''/''"
    by (auto simp: match_here_def Let_def split: if_splits list.splits)
  have "list_all isDigit ds"
    unfolding ds list_all_iff using set_takeWhileD by fastforce
  moreover have "r = ds @ t @ a"
    using split ds rest by simp
  ultimately show ?thesis
    using s ne t by simp
qed

lemma regex_exec_Some:
  "regex_exec s = Some (b, ds, t, a) \<Longrightarrow>
     s = b @ ''/_proxy/'' @ ds @ t @ a \<and> ds \<noteq> [] \<and> list_all isDigit ds \<and>
     (t = [] \<and> a = [] \<or> t = ''/'')"
proof (induction s arbitrary: b)
  case Nil
  then show ?case by simp
next
  case (Cons c cs)
  show ?case
  proof (cases "match_here (c # cs)")
    case None
    with Cons.prems obtain b' where b': "regex_exec cs = Some (b', ds, t, a)" and b: "b = c # b'"
      by (auto split: option.splits)
    from Cons.IH[OF b'] b show ?thesis by simp
  next
    case (Some m)
    with Cons.prems have "m = (ds, t, a)" and "b = []"
      by (auto split: prod.splits)
    with Some match_here_Some[of "c # cs" ds t a] show ?thesis by simp
  qed
qed

lemma match_here_complete:
  assumes "ds \<noteq> []" and "list_all isDigit ds" and "a = [] \<or> hd a = CHR ''/''"
  shows "\<exists>t a'. match_here (''/_proxy/'' @ ds @ a) = Some (ds, t, a')"
proof -
  have sp: "strip_prefix ''/_proxy/'' (''/_proxy/'' @ ds @ a) = Some (ds @ a)"
    using strip_prefix_Some by blast
  have all: "\<And>x. x \<in> set ds \<Longrightarrow> isDigit x"
    using assms(2) by (simp add: list_all_iff)
  have stop: "takeWhile isDigit a = []"
    using assms(3) not_digit_slash by (cases a) auto
  have tw: "takeWhile isDigit (ds @ a) = ds"
    using all stop by simp
  have dw: "dropWhile isDigit (ds @ a) = a"
    using all stop by (simp add: dropWhile_eq_self_iff takeWhile_eq_Nil_iff)
  have "match_here (''/_proxy/'' @ ds @ a) =
          (case a of [] \<Rightarrow> Some (ds, [], [])
           | c # r'' \<Rightarrow> if c = CHR ''/'' then Some (ds, [c], r'') else None)"
    unfolding match_here_def sp using assms(1) by (simp only: option.case Let_def tw dw if_False)
  then show ?thesis
    using assms(3) by (cases a) auto
qed

lemma regex_exec_complete:
  assumes "ds \<noteq> []" and "list_all isDigit ds" and "a = [] \<or> hd a = CHR ''/''"
  shows "regex_exec (b @ ''/_proxy/'' @ ds @ a) \<noteq> None"
proof (induction b)
  case Nil
  from match_here_complete[OF assms] obtain t a' where
    "match_here (''/_proxy/'' @ ds @ a) = Some (ds, t, a')" by blast
  then show ?case by simp
next
  case (Cons c b)
  then show ?case by (auto split: option.splits)
qed

lemma getPort_Some:
  "getPort u = Some d \<Longrightarrow> d \<noteq> [] \<and> list_all isDigit d \<and>
     (\<exists>b t a. u = Some (b @ ''/_proxy/'' @ d @ t @ a) \<and> (t = [] \<and> a = [] \<or> t = ''/''))"
proof -
  assume g: "getPort u = Some d"
  then obtain v where u: "u = Some v" and "v \<noteq> []"
    by (cases u) (auto simp: getPort_def split: if_splits)
  with g obtain b t a where "regex_exec v = Some (b, d, t, a)"
    by (auto simp: getPort_def split: option.splits)
  from regex_exec_Some[OF this] u show ?thesis by blast
qed

lemma getPort_truthy: "truthy (getPort u) \<longleftrightarrow> getPort u \<noteq> None"
  using getPort_Some[of u] by (auto simp: truthy_def split: option.splits)

section \<open>Properties of the reverse proxy\<close>

lemma getRequestPort_cases:
  "getRequestPort request path =
     (case getPort (Some path) of
        Some d \<Rightarrow> Some d
      | None \<Rightarrow> getPort (headerAsString (header_referer request)))"
  "getRequestPort_socketio sp request path =
     (case getPort (Some path) of
        Some d \<Rightarrow> Some d
      | None \<Rightarrow>
          (case getPort (headerAsString (header_referer request)) of
             Some d \<Rightarrow> Some d
           | None \<Rightarrow> if prefix ''/socket.io/'' path then Some sp else None))"
proof -
  have t: "truthy (getPort u) \<longleftrightarrow> getPort u \<noteq> None" for u
    by (rule getPort_truthy)
  show "getRequestPort request path =
     (case getPort (Some path) of
        Some d \<Rightarrow> Some d
      | None \<Rightarrow> getPort (headerAsString (header_referer request)))"
    using t[of "Some path"]
    by (auto simp: getRequestPort_def js_or_def split: option.splits)
  show "getRequestPort_socketio sp request path =
     (case getPort (Some path) of
        Some d \<Rightarrow> Some d
      | None \<Rightarrow>
          (case getPort (headerAsString (header_referer request)) of
             Some d \<Rightarrow> Some d
           | None \<Rightarrow> if prefix ''/socket.io/'' path then Some sp else None))"
    using t[of "Some path"] t[of "headerAsString (header_referer request)"]
    by (auto simp: getRequestPort_socketio_def js_or_def Let_def split: option.splits)
qed

text \<open>
  Claim C6, as the code has it. \<^verbatim>\<open>getRequestPort\<close> returns the digits that the
  pattern captures in the request path when the pattern matches the path; they
  are a non-empty run of digits that follows \<^verbatim>\<open>/_proxy/\<close> in the path. When
  the pattern does not match the path, it returns the digits captured in the
  Referer value. When neither matches, the variant of lines 297-315 returns
  null; the variant of lines 217-240 returns the configured socket.io port for
  a path that starts with \<^verbatim>\<open>/socket.io/\<close> and null for every other path.
\<close>

theorem getRequestPort_resolution:
  "(getPort (Some path) = Some d \<longrightarrow>
      getRequestPort request path = Some d \<and>
      getRequestPort_socketio sp request path = Some d \<and>
      d \<noteq> [] \<and> list_all isDigit d \<and> (\<exists>b t a. path = b @ ''/_proxy/'' @ d @ t @ a)) \<and>
   (getPort (Some path) = None \<longrightarrow>
    getPort (headerAsString (header_referer request)) = Some d \<longrightarrow>
      getRequestPort request path = Some d \<and>
      getRequestPort_socketio sp request path = Some d) \<and>
   (getPort (Some path) = None \<longrightarrow>
    getPort (headerAsString (header_referer request)) = None \<longrightarrow>
      getRequestPort request path = None \<and>
      getRequestPort_socketio sp request path =
        (if prefix ''/socket.io/'' path then Some sp else None))"
proof -
  have "d \<noteq> [] \<and> list_all isDigit d \<and> (\<exists>b t a. path = b @ ''/_proxy/'' @ d @ t @ a)"
    if "getPort (Some path) = Some d"
    using getPort_Some[OF that] by auto
  then show ?thesis
    by (simp add: getRequestPort_cases)
qed

text \<open>
  The theorem at three requests: the path matches, only the Referer matches,
  neither matches.
\<close>

theorem getRequestPort_resolution_witness:
  "getPort (Some ''/_proxy/8081/foo'') = Some ''8081'' \<and>
   getRequestPort \<lparr>req_url = ''/_proxy/8081/foo'', header_origin = None, header_referer = None\<rparr>
      ''/_proxy/8081/foo'' = Some ''8081'' \<and>
   getPort (Some ''/foo'') = None \<and>
   getRequestPort
      \<lparr>req_url = ''/foo'', header_origin = None, header_referer = Some ''http://h/_proxy/80/''\<rparr>
      ''/foo'' = Some ''80'' \<and>
   getRequestPort \<lparr>req_url = ''/foo'', header_origin = None, header_referer = None\<rparr>
      ''/foo'' = None"
  using getRequestPort_resolution[of "''/_proxy/8081/foo''" "''8081''"
      "\<lparr>req_url = ''/_proxy/8081/foo'', header_origin = None, header_referer = None\<rparr>" "''8084''"]
    getRequestPort_resolution[of "''/foo''" "''80''"
      "\<lparr>req_url = ''/foo'', header_origin = None, header_referer = Some ''http://h/_proxy/80/''\<rparr>" "''8084''"]
    getRequestPort_resolution[of "''/foo''" "''80''"
      "\<lparr>req_url = ''/foo'', header_origin = None, header_referer = None\<rparr>" "''8084''"]
  by (simp add: getPort_def headerAsString_def match_here_def isDigit_def)

text \<open>
  Claim C6 as stated fails on the variant of lines 217-240: for the path
  \<^verbatim>\<open>/socket.io/x\<close> and no Referer, neither extraction matches and the result
  is the socket.io port, not null.
\<close>

theorem getRequestPort_socketio_fallback:
  "getPort (Some ''/socket.io/x'') = None \<and>
   getPort (headerAsString (header_referer
      \<lparr>req_url = ''/socket.io/x'', header_origin = None, header_referer = None\<rparr>)) = None \<and>
   getRequestPort_socketio ''8084''
      \<lparr>req_url = ''/socket.io/x'', header_origin = None, header_referer = None\<rparr>
      ''/socket.io/x'' = Some ''8084''"
  by (simp add: getRequestPort_socketio_def getPort_def headerAsString_def js_or_def truthy_def
      match_here_def)

text \<open>
  Claim C5, as the code has it. When the pattern matches \<^verbatim>\<open>request.url\<close>,
  \<^verbatim>\<open>handleRequest\<close> cuts the first match out of it: the segment
  \<^verbatim>\<open>/_proxy/<digits>\<close> together with the slash that ends the match, when there
  is one. The text before and the text after the match, query string
  included, are kept and joined. The target is \<^verbatim>\<open>http://localhost:<port>\<close>; the
  variant of lines 245-258 appends the base path to it when the rewritten URL
  starts with \<^verbatim>\<open>/socket.io/\<close>.
\<close>

theorem reverseProxy_handleRequest_cuts_match:
  assumes "regex_exec (req_url request) = Some (b, ds, t, a)"
  shows "req_url request = b @ ''/_proxy/'' @ ds @ t @ a \<and>
         (t = [] \<and> a = [] \<or> t = ''/'') \<and>
         reverseProxy_handleRequest request p =
           (request\<lparr>req_url := b @ a\<rparr>, ''http://localhost:'' @ p) \<and>
         reverseProxy_handleRequest_socketio base request p =
           (request\<lparr>req_url := b @ a\<rparr>,
            if prefix ''/socket.io/'' (b @ a) then ''http://localhost:'' @ p @ base
            else ''http://localhost:'' @ p)"
  using assms regex_exec_Some[OF assms]
  by (simp add: reverseProxy_handleRequest_def reverseProxy_handleRequest_socketio_def
      replace_regex_def Let_def)

text \<open>
  The theorem at \<^verbatim>\<open>/_proxy/8081/foo/bar?q=1\<close>: the rewritten URL is
  \<^verbatim>\<open>foo/bar?q=1\<close> and the target \<^verbatim>\<open>http://localhost:8081\<close>.
\<close>

theorem reverseProxy_handleRequest_cuts_match_witness:
  "regex_exec ''/_proxy/8081/foo/bar?q=1'' = Some ([], ''8081'', ''/'', ''foo/bar?q=1'') \<and>
   reverseProxy_handleRequest
      \<lparr>req_url = ''/_proxy/8081/foo/bar?q=1'', header_origin = None, header_referer = None\<rparr> ''8081'' =
     (\<lparr>req_url = ''foo/bar?q=1'', header_origin = None, header_referer = None\<rparr>,
      ''http://localhost:8081'')"
proof -
  have m: "regex_exec (req_url \<lparr>req_url = ''/_proxy/8081/foo/bar?q=1'', header_origin = None,
              header_referer = None\<rparr>) = Some ([], ''8081'', ''/'', ''foo/bar?q=1'')"
    by (simp add: match_here_def isDigit_def)
  from reverseProxy_handleRequest_cuts_match[OF m, of "''8081''" "''/''"] m show ?thesis
    by simp
qed

text \<open>
  Claim C5 as stated fails where the match is not at the start: for
  \<^verbatim>\<open>/a/_proxy/80/b\<close> the pattern matches, taking only the segment out would
  leave \<^verbatim>\<open>/a/b\<close>, and the code leaves \<^verbatim>\<open>/ab\<close>.
\<close>

theorem reverseProxy_handleRequest_joins_around_match:
  "regex_exec ''/a/_proxy/80/b'' = Some (''/a'', ''80'', ''/'', ''b'') \<and>
   req_url (fst (reverseProxy_handleRequest
      \<lparr>req_url = ''/a/_proxy/80/b'', header_origin = None, header_referer = None\<rparr> ''80'')) = ''/ab'' \<and>
   spec_strip_segment ''/a/_proxy/80/b'' = ''/a/b''"
  by (simp add: reverseProxy_handleRequest_def replace_regex_def spec_strip_segment_def
      match_here_def isDigit_def)

section \<open>Properties of the supervisor's queries and of the response filter\<close>

text \<open>
  Claim C9. \<^verbatim>\<open>getPort\<close> does not depend on its request: two requests get the
  same answer in the same state. The answer is the port of the server stored
  under the key \<^verbatim>\<open>anonymous\<close> (in \<^verbatim>\<open>part_000\<close>: of the one server) when
  there is one and 0 otherwise, and the state is left as it was.
\<close>

theorem getPort_ignores_request:
  "jupyter_getPort r1 s = jupyter_getPort r2 s \<and>
   fst (jupyter_getPort r1 s) =
     (case map_of (jupyterServers s) ''anonymous'' of None \<Rightarrow> 0 | Some server \<Rightarrow> port server) \<and>
   snd (jupyter_getPort r1 s) = s \<and>
   jupyter_getPort_single r1 t = jupyter_getPort_single r2 t \<and>
   fst (jupyter_getPort_single r1 t) =
     (case jupyterServer t of None \<Rightarrow> 0 | Some server \<Rightarrow> port server) \<and>
   snd (jupyter_getPort_single r1 t) = t"
  by (simp add: jupyter_getPort_def jupyter_getPort_single_def split: option.splits)

text \<open>
  Claim C2. When the request's Origin header is one of the allowed origins, the
  filter sets \<^verbatim>\<open>access-control-allow-origin\<close> to that origin and
  \<^verbatim>\<open>access-control-allow-credentials\<close> to \<^verbatim>\<open>true\<close>. When the header is absent or
  not among the allowed origins, the filtered response has no
  \<^verbatim>\<open>access-control-allow-origin\<close> header, whatever the upstream sent. Both
  variants of \<^verbatim>\<open>responseHandler\<close> do so.
\<close>

theorem responseHandler_cors:
  "(header_origin request = Some v \<and> v \<in> set (allowOriginOverrides cfg) \<longrightarrow>
      responseHandler cfg request hdrs ''access-control-allow-origin'' = Some v \<and>
      responseHandler cfg request hdrs ''access-control-allow-credentials'' = Some ''true'' \<and>
      responseHandler_single cfg request hdrs ''access-control-allow-origin'' = Some v \<and>
      responseHandler_single cfg request hdrs ''access-control-allow-credentials'' = Some ''true'') \<and>
   ((header_origin request = None \<or>
     (\<exists>u. header_origin request = Some u \<and> u \<notin> set (allowOriginOverrides cfg))) \<longrightarrow>
      responseHandler cfg request hdrs ''access-control-allow-origin'' = None \<and>
      responseHandler_single cfg request hdrs ''access-control-allow-origin'' = None)"
  by (auto simp: responseHandler_def responseHandler_single_def headerAsString_def
      split: option.splits)

text \<open>
  The theorem at the spec's example: the allowed origin \<^verbatim>\<open>https://a.example\<close>
  and an upstream response with \<^verbatim>\<open>access-control-allow-origin: *\<close>, first for a
  request from the allowed origin, then for one from \<^verbatim>\<open>https://evil.example\<close>.
\<close>

theorem responseHandler_cors_witness:
  "responseHandler
      \<lparr>datalabBasePath = ''/'', nextJupyterPort = 0, allowOriginOverrides = [''https://a.example'']\<rparr>
      \<lparr>req_url = ''/'', header_origin = Some ''https://a.example'', header_referer = None\<rparr>
      [''access-control-allow-origin'' \<mapsto> ''*''] ''access-control-allow-origin'' =
     Some ''https://a.example'' \<and>
   responseHandler
      \<lparr>datalabBasePath = ''/'', nextJupyterPort = 0, allowOriginOverrides = [''https://a.example'']\<rparr>
      \<lparr>req_url = ''/'', header_origin = Some ''https://a.example'', header_referer = None\<rparr>
      [''access-control-allow-origin'' \<mapsto> ''*''] ''access-control-allow-credentials'' =
     Some ''true'' \<and>
   responseHandler
      \<lparr>datalabBasePath = ''/'', nextJupyterPort = 0, allowOriginOverrides = [''https://a.example'']\<rparr>
      \<lparr>req_url = ''/'', header_origin = Some ''https://evil.example'', header_referer = None\<rparr>
      [''access-control-allow-origin'' \<mapsto> ''*''] ''access-control-allow-origin'' = None"
  using
    responseHandler_cors[of
      "\<lparr>req_url = ''/'', header_origin = Some ''https://a.example'', header_referer = None\<rparr>"
      "''https://a.example''"
      "\<lparr>datalabBasePath = ''/'', nextJupyterPort = 0, allowOriginOverrides = [''https://a.example'']\<rparr>"
      "[''access-control-allow-origin'' \<mapsto> ''*'']"]
    responseHandler_cors[of
      "\<lparr>req_url = ''/'', header_origin = Some ''https://evil.example'', header_referer = None\<rparr>"
      "''https://a.example''"
      "\<lparr>datalabBasePath = ''/'', nextJupyterPort = 0, allowOriginOverrides = [''https://a.example'']\<rparr>"
      "[''access-control-allow-origin'' \<mapsto> ''*'']"]
  by simp

section \<open>Properties of the supervisor\<close>

lemma lookup_None:
  "lookup inh servers n = None \<longleftrightarrow> \<not> inh n \<and> map_of servers n = None"
  by (simp add: lookup_def split: option.splits)

lemma lookup_anonymous:
  "lookup objectPrototype servers ''anonymous'' = map_option Own (map_of servers ''anonymous'')"
  by (simp add: lookup_def objectPrototype_def split: option.splits)

lemma lookup_single:
  "lookup noPrototype servers n = map_option Own (map_of servers n)"
  by (simp add: lookup_def noPrototype_def split: option.splits)

lemma start_ready:
  "map_of (jupyterServers s) uid = Some server \<Longrightarrow>
     startForUser inh cfg uid cb env s = (s, [NextTick cb])"
  by (simp add: startForUser_def lookup_def)

lemma start_inherited:
  "inh uid \<Longrightarrow> startForUser inh cfg uid cb env s = (s, [NextTick cb])"
  by (simp add: startForUser_def lookup_def split: option.splits)

lemma start_parked:
  "\<not> inh uid \<Longrightarrow> map_of (jupyterServers s) uid = None \<Longrightarrow>
   callbackManager s uid = Some cbs \<Longrightarrow>
     startForUser inh cfg uid cb env s =
       (s\<lparr>callbackManager := (callbackManager s)(uid \<mapsto> cbs @ [cb])\<rparr>, [])"
  by (simp add: startForUser_def lookup_def checkOngoingAndRegisterCallback_def)

lemma start_fails:
  "\<not> inh uid \<Longrightarrow> map_of (jupyterServers s) uid = None \<Longrightarrow>
   callbackManager s uid = None \<Longrightarrow>
   userDir env = Inl e \<or> (\<exists>d. userDir env = Inr d) \<and> spawnThrows env = Some e \<Longrightarrow>
     startForUser inh cfg uid cb env s = (s, [Invoke uid cb (Some e)])"
  by (auto simp: startForUser_def lookup_def checkOngoingAndRegisterCallback_def
      createJupyterServer_def createJupyterServerAtPort_def invokeAllCallbacks_def Let_def
      fun_upd_idem)

lemma start_spawns:
  "\<not> inh uid \<Longrightarrow> map_of (jupyterServers s) uid = None \<Longrightarrow>
   callbackManager s uid = None \<Longrightarrow>
   userDir env = Inr d \<Longrightarrow> spawnThrows env = None \<Longrightarrow>
     startForUser inh cfg uid cb env s =
       (s\<lparr>callbackManager := (callbackManager s)(uid \<mapsto> [cb]),
          readinessWaits := readinessWaits s @ [new_wait (new_server cfg uid env d (nextHandle s))],
          exitHandlers := exitHandlers s @ [new_server cfg uid env d (nextHandle s)],
          nextHandle := Suc (nextHandle s)\<rparr>,
        [Spawn (nextHandle s) uid (jupyterPort cfg) (notebookDir env d)])"
  by (simp add: startForUser_def lookup_def checkOngoingAndRegisterCallback_def
      createJupyterServer_def createJupyterServerAtPort_def Let_def new_wait_def new_server_def
      jupyterPort_def notebookDir_def)

lemma delete_absent: "map_of al k = None \<Longrightarrow> AList.delete k al = al"
  by (induction al) auto

lemma find_wait_Some:
  "find_wait h s = Some w \<Longrightarrow> w \<in> set (readinessWaits s) \<and> childProcess (waitServer w) = h"
  by (auto simp: find_wait_def find_Some_iff)

lemma find_wait_None:
  "find_wait h s = None \<longleftrightarrow> (\<forall>w \<in> set (readinessWaits s). childProcess (waitServer w) \<noteq> h)"
  by (auto simp: find_wait_def find_None_iff)

lemma inv_same_key:
  assumes "supervisor_inv inh s" and "w \<in> set (readinessWaits s)" and "w' \<in> set (readinessWaits s)"
    and "userId (waitServer w) = userId (waitServer w')"
  shows "w = w'"
proof -
  from assms(1) have "inj_on (\<lambda>w. userId (waitServer w)) (set (readinessWaits s))"
    by (simp add: supervisor_inv_def waiting_keys_def distinct_map)
  with assms(2-4) show ?thesis
    by (auto dest: inj_onD)
qed

lemma inv_waitD:
  assumes "supervisor_inv inh s" and "w \<in> set (readinessWaits s)"
  shows "callbackManager s (userId (waitServer w)) \<noteq> None"
    and "map_of (jupyterServers s) (userId (waitServer w)) = None"
    and "childProcess (waitServer w) < nextHandle s"
    and "waitHost w = ''localhost''" and "retryTimeMs w = 100" and "timeOutMs w = 15000"
    and "\<not> inh (userId (waitServer w))"
  using assms by (auto simp: supervisor_inv_def)

lemma inv_exitD:
  assumes "supervisor_inv inh s" and "server \<in> set (exitHandlers s)"
  shows "childProcess server < nextHandle s"
    and "w \<in> set (readinessWaits s) \<Longrightarrow> childProcess (waitServer w) = childProcess server \<Longrightarrow>
         waitServer w = server"
  using assms by (auto simp: supervisor_inv_def)

lemma inv_init: "supervisor_inv inh init_supervisor"
  by (simp add: supervisor_inv_def init_supervisor_def waiting_keys_def)

lemma inv_start:
  assumes "supervisor_inv inh s"
  shows "supervisor_inv inh (fst (startForUser inh cfg uid cb env s))"
proof (cases "inh uid")
  case True
  with assms show ?thesis by (simp add: start_inherited)
next
  case ni: False
  show ?thesis
  proof (cases "map_of (jupyterServers s) uid")
  case (Some server)
  with assms show ?thesis by (simp add: start_ready)
next
  case None
  show ?thesis
  proof (cases "callbackManager s uid")
    case (Some cbs)
    with ni None assms show ?thesis
      by (simp add: start_parked supervisor_inv_def waiting_keys_def)
  next
    case cm: None
    have fresh: "\<forall>w \<in> set (readinessWaits s). userId (waitServer w) \<noteq> uid"
    proof
      fix w assume "w \<in> set (readinessWaits s)"
      from inv_waitD(1)[OF assms this] cm show "userId (waitServer w) \<noteq> uid"
        by metis
    qed
    show ?thesis
    proof (cases "userDir env")
      case (Inl e)
      with ni None cm assms show ?thesis by (simp add: start_fails)
    next
      case (Inr d)
      show ?thesis
      proof (cases "spawnThrows env")
        case (Some e)
        with ni None cm Inr assms show ?thesis by (simp add: start_fails)
      next
        case sp: None
        have "uid \<notin> set (waiting_keys s)"
          using fresh by (auto simp: waiting_keys_def)
        with assms ni None show ?thesis
          unfolding start_spawns[where inh = inh, OF ni None cm Inr sp]
          by (auto simp: supervisor_inv_def waiting_keys_def new_wait_def new_server_def
              less_Suc_eq)
      qed
    qed
  qed
  qed
qed

lemma settled_state:
  assumes "supervisor_inv inh s" and "find_wait h s = Some w"
  shows "supervisor_inv inh
           (s\<lparr>readinessWaits := filter (\<lambda>w. childProcess (waitServer w) \<noteq> h) (readinessWaits s),
              jupyterServers := srv,
              callbackManager := (callbackManager s)(userId (waitServer w) := None)\<rparr>) \<longleftrightarrow>
         (\<forall>w' \<in> set (readinessWaits s). childProcess (waitServer w') \<noteq> h \<longrightarrow>
            map_of srv (userId (waitServer w')) = None)"
proof -
  from find_wait_Some[OF assms(2)] have w: "w \<in> set (readinessWaits s)"
    and h: "childProcess (waitServer w) = h" by auto
  have other: "userId (waitServer w') \<noteq> userId (waitServer w)"
    if "w' \<in> set (readinessWaits s)" and "childProcess (waitServer w') \<noteq> h" for w'
    using inv_same_key[OF assms(1) that(1) w] that(2) h by auto
  have d: "distinct (map (\<lambda>w. userId (waitServer w))
             (filter (\<lambda>w. childProcess (waitServer w) \<noteq> h) (readinessWaits s)))"
    using assms(1) by (simp add: supervisor_inv_def waiting_keys_def distinct_map_filter)
  show ?thesis
    using d other inv_waitD[OF assms(1)] inv_exitD[OF assms(1)]
    by (auto simp: supervisor_inv_def waiting_keys_def)
qed

lemma fulfilled_effect:
  "find_wait h s = Some w \<Longrightarrow>
     waitFulfilled h s =
       (s\<lparr>readinessWaits := filter (\<lambda>w. childProcess (waitServer w) \<noteq> h) (readinessWaits s),
          jupyterServers := AList.update (userId (waitServer w)) (waitServer w) (jupyterServers s),
          callbackManager := (callbackManager s)(userId (waitServer w) := None)\<rparr>,
        map (\<lambda>cb. Invoke (userId (waitServer w)) cb None) (parked (userId (waitServer w)) s))"
  by (simp add: waitFulfilled_def drop_wait_def invokeAllCallbacks_def Let_def parked_def)

lemma rejected_effect:
  "find_wait h s = Some w \<Longrightarrow>
     waitRejected h e s =
       (s\<lparr>readinessWaits := filter (\<lambda>w. childProcess (waitServer w) \<noteq> h) (readinessWaits s),
          jupyterServers := jupyterServers s,
          callbackManager := (callbackManager s)(userId (waitServer w) := None)\<rparr>,
        map (\<lambda>cb. Invoke (userId (waitServer w)) cb (Some e)) (parked (userId (waitServer w)) s))"
  by (simp add: waitRejected_def drop_wait_def invokeAllCallbacks_def Let_def parked_def)

lemma inv_fulfilled:
  assumes "supervisor_inv inh s"
  shows "supervisor_inv inh (fst (waitFulfilled h s))"
proof (cases "find_wait h s")
  case None
  with assms show ?thesis by (simp add: waitFulfilled_def)
next
  case (Some w)
  from find_wait_Some[OF Some] have w: "w \<in> set (readinessWaits s)"
    and h: "childProcess (waitServer w) = h" by auto
  have "map_of (AList.update (userId (waitServer w)) (waitServer w) (jupyterServers s))
          (userId (waitServer w')) = None"
    if "w' \<in> set (readinessWaits s)" and "childProcess (waitServer w') \<noteq> h" for w'
  proof -
    from inv_same_key[OF assms that(1) w] that(2) h
    have "userId (waitServer w') \<noteq> userId (waitServer w)" by auto
    with inv_waitD(2)[OF assms that(1)] show ?thesis
      by (simp add: update_conv')
  qed
  then show ?thesis
    unfolding fulfilled_effect[OF Some] fst_conv settled_state[OF assms Some] by blast
qed

lemma inv_rejected:
  assumes "supervisor_inv inh s"
  shows "supervisor_inv inh (fst (waitRejected h e s))"
proof (cases "find_wait h s")
  case None
  with assms show ?thesis by (simp add: waitRejected_def)
next
  case (Some w)
  show ?thesis
    unfolding rejected_effect[OF Some] fst_conv settled_state[OF assms Some]
    using inv_waitD(2)[OF assms] by blast
qed

lemma inv_exit:
  assumes "supervisor_inv inh s"
  shows "supervisor_inv inh (fst (exitHandler h s))"
  using assms
  by (auto simp: exitHandler_def supervisor_inv_def waiting_keys_def delete_conv'
      split: option.splits)

lemma inv_close:
  assumes "supervisor_inv inh s"
  shows "supervisor_inv inh (fst (step inh cfg (Close forIn killThrows) s))"
  using assms by (auto simp: step_def close_def supervisor_inv_def waiting_keys_def)

lemma inv_step: "supervisor_inv inh s \<Longrightarrow> supervisor_inv inh (fst (step inh cfg ev s))"
proof (cases ev)
  case (Close forIn killThrows)
  assume "supervisor_inv inh s"
  with Close show ?thesis by (simp add: inv_close)
qed (simp_all add: step_def inv_start inv_fulfilled inv_rejected inv_exit)

lemma reachable_inv: "reachable inh cfg s \<Longrightarrow> supervisor_inv inh s"
  by (induction rule: reachable.induct) (simp_all add: inv_init inv_step)

lemma in_flightD:
  assumes "in_flight inh k h cbs s"
  shows "supervisor_inv inh s" and "callbackManager s k = Some cbs"
    and "map_of (jupyterServers s) k = None"
    and "\<exists>w. find_wait h s = Some w \<and> userId (waitServer w) = k"
    and "\<not> inh k"
proof -
  from assms show i: "supervisor_inv inh s" and "callbackManager s k = Some cbs"
    and f: "\<exists>w. find_wait h s = Some w \<and> userId (waitServer w) = k"
    by (auto simp: in_flight_def)
  from f obtain w where "find_wait h s = Some w" and k: "userId (waitServer w) = k" by blast
  from find_wait_Some[OF this(1)] have win: "w \<in> set (readinessWaits s)" by simp
  from inv_waitD(2)[OF i win] k show "map_of (jupyterServers s) k = None" by simp
  from inv_waitD(7)[OF i win] k show "\<not> inh k" by simp
qed

lemma find_wait_other_key:
  assumes "supervisor_inv inh s" and "find_wait h s = Some w" and "find_wait h' s = Some w'"
    and "h' \<noteq> h"
  shows "userId (waitServer w') \<noteq> userId (waitServer w)"
proof
  assume eq: "userId (waitServer w') = userId (waitServer w)"
  from find_wait_Some[OF assms(2)] find_wait_Some[OF assms(3)]
  have "w \<in> set (readinessWaits s)" "w' \<in> set (readinessWaits s)"
    "childProcess (waitServer w) = h" "childProcess (waitServer w') = h'" by auto
  with inv_same_key[OF assms(1) this(2) this(1) eq] assms(4) show False by simp
qed

lemma find_append_cases:
  "find P (xs @ ys) = (case find P xs of None \<Rightarrow> find P ys | Some x \<Rightarrow> Some x)"
  by (induction xs) auto

lemma run_Cons:
  "fst (run inh cfg (ev # evs) s) = fst (run inh cfg evs (fst (step inh cfg ev s)))"
  "snd (run inh cfg (ev # evs) s) =
     snd (step inh cfg ev s) @ snd (run inh cfg evs (fst (step inh cfg ev s)))"
  by (simp_all split: prod.splits)

lemma run_append:
  "fst (run inh cfg (evs @ evs') s) = fst (run inh cfg evs' (fst (run inh cfg evs s)))"
  "snd (run inh cfg (evs @ evs') s) =
     snd (run inh cfg evs s) @ snd (run inh cfg evs' (fst (run inh cfg evs s)))"
proof (induction evs arbitrary: s)
  case Nil
  {
    case 1 show ?case by simp
  next
    case 2 show ?case by simp
  }
next
  case (Cons ev evs)
  {
    case 1 show ?case
      using Cons.IH(1)[of "fst (step inh cfg ev s)"] by (simp only: append_Cons run_Cons)
  next
    case 2 show ?case
      using Cons.IH[of "fst (step inh cfg ev s)"] by (simp only: append_Cons run_Cons append_assoc)
  }
qed

lemma find_filter_other:
  "h' \<noteq> h \<Longrightarrow>
     find (\<lambda>w. childProcess (waitServer w) = h)
       (filter (\<lambda>w. childProcess (waitServer w) \<noteq> h') ws) =
     find (\<lambda>w. childProcess (waitServer w) = h) ws"
  by (induction ws) auto

lemma in_flight_start:
  assumes "in_flight inh k h cbs s"
  shows "in_flight inh k h (cbs @ callers k [StartForUser uid cb env])
           (fst (startForUser inh cfg uid cb env s)) \<and>
         filter (is_spawn_for k) (snd (startForUser inh cfg uid cb env s)) = [] \<and>
         filter (is_invoke_for k) (snd (startForUser inh cfg uid cb env s)) = []"
proof -
  note d = in_flightD[OF assms]
  from d(4) obtain w where w: "find_wait h s = Some w" "userId (waitServer w) = k" by blast
  have i': "supervisor_inv inh (fst (startForUser inh cfg uid cb env s))"
    by (rule inv_start[OF d(1)])
  show ?thesis
  proof (cases "uid = k")
    case True
    with d(2,3,5) w i' show ?thesis
      by (simp add: start_parked in_flight_def find_wait_def)
  next
    case other: False
    show ?thesis
    proof (cases "inh uid")
      case True
      with other assms show ?thesis by (simp add: start_inherited)
    next
      case ni: False
      show ?thesis
      proof (cases "map_of (jupyterServers s) uid")
        case (Some server)
        with other assms show ?thesis by (simp add: start_ready)
      next
        case None
        show ?thesis
        proof (cases "callbackManager s uid")
          case (Some ws)
          with ni None other d(2) w i' show ?thesis
            by (simp add: start_parked in_flight_def find_wait_def)
        next
          case cm: None
          show ?thesis
          proof (cases "userDir env")
            case (Inl e)
            with ni None cm other assms show ?thesis by (simp add: start_fails)
          next
            case (Inr dir)
            show ?thesis
            proof (cases "spawnThrows env")
              case (Some e)
              with ni None cm Inr other assms show ?thesis by (simp add: start_fails)
            next
              case sp: None
              from i' other d(2) w show ?thesis
                unfolding start_spawns[where inh = inh, OF ni None cm Inr sp]
                by (simp add: in_flight_def find_wait_def find_append_cases)
            qed
          qed
        qed
      qed
    qed
  qed
qed

lemma in_flight_fulfilled:
  assumes "in_flight inh k h cbs s" and "h' \<noteq> h"
  shows "in_flight inh k h cbs (fst (waitFulfilled h' s)) \<and>
         filter (is_spawn_for k) (snd (waitFulfilled h' s)) = [] \<and>
         filter (is_invoke_for k) (snd (waitFulfilled h' s)) = []"
proof (cases "find_wait h' s")
  case None
  with assms show ?thesis by (simp add: waitFulfilled_def)
next
  case (Some w')
  note d = in_flightD[OF assms(1)]
  from d(4) obtain w where w: "find_wait h s = Some w" "userId (waitServer w) = k" by blast
  from find_wait_other_key[OF d(1) w(1) Some assms(2)] w(2)
  have other: "userId (waitServer w') \<noteq> k" by simp
  have i': "supervisor_inv inh (fst (waitFulfilled h' s))"
    by (rule inv_fulfilled[OF d(1)])
  from i' other d(2) w assms(2) show ?thesis
    unfolding fulfilled_effect[OF Some]
    by (simp add: in_flight_def find_wait_def find_filter_other filter_empty_conv)
qed

lemma in_flight_rejected:
  assumes "in_flight inh k h cbs s" and "h' \<noteq> h"
  shows "in_flight inh k h cbs (fst (waitRejected h' e s)) \<and>
         filter (is_spawn_for k) (snd (waitRejected h' e s)) = [] \<and>
         filter (is_invoke_for k) (snd (waitRejected h' e s)) = []"
proof (cases "find_wait h' s")
  case None
  with assms show ?thesis by (simp add: waitRejected_def)
next
  case (Some w')
  note d = in_flightD[OF assms(1)]
  from d(4) obtain w where w: "find_wait h s = Some w" "userId (waitServer w) = k" by blast
  from find_wait_other_key[OF d(1) w(1) Some assms(2)] w(2)
  have other: "userId (waitServer w') \<noteq> k" by simp
  have i': "supervisor_inv inh (fst (waitRejected h' e s))"
    by (rule inv_rejected[OF d(1)])
  from i' other d(2) w assms(2) show ?thesis
    unfolding rejected_effect[OF Some]
    by (simp add: in_flight_def find_wait_def find_filter_other filter_empty_conv)
qed

lemma in_flight_exit:
  assumes "in_flight inh k h cbs s"
  shows "in_flight inh k h cbs (fst (exitHandler h' s)) \<and> snd (exitHandler h' s) = []"
proof -
  note d = in_flightD[OF assms]
  have "supervisor_inv inh (fst (exitHandler h' s))"
    by (rule inv_exit[OF d(1)])
  with d(2,4) show ?thesis
    by (auto simp: exitHandler_def in_flight_def find_wait_def split: option.splits)
qed

lemma in_flight_close:
  assumes "in_flight inh k h cbs s"
  shows "in_flight inh k h cbs (fst (step inh cfg (Close forIn killThrows) s)) \<and>
         filter (is_spawn_for k) (snd (step inh cfg (Close forIn killThrows) s)) = [] \<and>
         filter (is_invoke_for k) (snd (step inh cfg (Close forIn killThrows) s)) = []"
proof -
  note d = in_flightD[OF assms]
  have i': "supervisor_inv inh (fst (step inh cfg (Close forIn killThrows) s))"
    by (rule inv_close[OF d(1)])
  have "filter (is_spawn_for k) (close_loop killThrows xs) = [] \<and>
        filter (is_invoke_for k) (close_loop killThrows xs) = []"
    for xs :: "('a \<times> 'a JupyterServer) list"
    by (induction xs) (auto split: option.splits)
  with i' d(2,4) show ?thesis
    by (auto simp: step_def close_def in_flight_def find_wait_def)
qed

lemma in_flight_step:
  assumes "in_flight inh k h cbs s" and "\<not> settles h ev"
  shows "in_flight inh k h (cbs @ callers k [ev]) (fst (step inh cfg ev s)) \<and>
         filter (is_spawn_for k) (snd (step inh cfg ev s)) = [] \<and>
         filter (is_invoke_for k) (snd (step inh cfg ev s)) = []"
proof (cases ev)
  case (StartForUser uid cb env)
  with in_flight_start[OF assms(1), where uid = uid and cb = cb and env = env and cfg = cfg]
  show ?thesis
    by (simp add: step_def)
next
  case (WaitFulfilled h')
  with in_flight_fulfilled[OF assms(1), of h'] assms(2) show ?thesis
    by (simp add: step_def)
next
  case (WaitRejected h' e)
  with in_flight_rejected[OF assms(1), of h' e] assms(2) show ?thesis
    by (simp add: step_def)
next
  case (ProcessExit h')
  with in_flight_exit[OF assms(1), of h'] show ?thesis
    by (simp add: step_def)
next
  case (Close forIn killThrows)
  with in_flight_close[OF assms(1), where cfg = cfg and forIn = forIn
      and killThrows = killThrows]
  show ?thesis
    by simp
qed

lemma in_flight_run:
  assumes "in_flight inh k h cbs s" and "\<forall>ev \<in> set evs. \<not> settles h ev"
  shows "in_flight inh k h (cbs @ callers k evs) (fst (run inh cfg evs s)) \<and>
         filter (is_spawn_for k) (snd (run inh cfg evs s)) = [] \<and>
         filter (is_invoke_for k) (snd (run inh cfg evs s)) = []"
  using assms
proof (induction evs arbitrary: s cbs)
  case Nil
  then show ?case by simp
next
  case (Cons ev evs)
  from Cons.prems(2) have ns: "\<not> settles h ev" and rest: "\<forall>ev \<in> set evs. \<not> settles h ev"
    by simp_all
  note st = in_flight_step[OF Cons.prems(1) ns, where cfg = cfg]
  from st have f: "in_flight inh k h (cbs @ callers k [ev]) (fst (step inh cfg ev s))" by simp
  note ih = Cons.IH[OF f rest]
  have c: "callers k (ev # evs) = callers k [ev] @ callers k evs"
    by (cases ev) simp_all
  from st ih show ?case
    by (simp add: c run_Cons del: run.simps)
qed

lemma start_in_flight:
  assumes "supervisor_inv inh s" and "\<not> inh k" and "map_of (jupyterServers s) k = None"
    and "callbackManager s k = None" and "userDir env = Inr d" and "spawnThrows env = None"
  shows "in_flight inh k (nextHandle s) [cb] (fst (startForUser inh cfg k cb env s)) \<and>
         snd (startForUser inh cfg k cb env s) =
           [Spawn (nextHandle s) k (jupyterPort cfg) (notebookDir env d)]"
proof -
  have i': "supervisor_inv inh (fst (startForUser inh cfg k cb env s))"
    by (rule inv_start[OF assms(1)])
  have "find (\<lambda>w. childProcess (waitServer w) = nextHandle s) (readinessWaits s) = None"
    using inv_waitD(3)[OF assms(1)] by (fastforce simp: find_None_iff)
  with i' show ?thesis
    unfolding start_spawns[where inh = inh, OF assms(2-6)]
    by (simp add: in_flight_def find_wait_def find_append_cases new_wait_def new_server_def)
qed

lemma settle_in_flight:
  assumes "in_flight inh k h cbs s"
  shows "snd (step inh cfg (settle h r) s) = map (\<lambda>cb. Invoke k cb r) cbs"
    and "supervisor_inv inh (fst (step inh cfg (settle h r) s))"
    and "callbackManager (fst (step inh cfg (settle h r) s)) k = None"
    and "k \<notin> set (waiting_keys (fst (step inh cfg (settle h r) s)))"
    and "r \<noteq> None \<Longrightarrow> map_of (jupyterServers (fst (step inh cfg (settle h r) s))) k = None"
    and "r \<noteq> None \<Longrightarrow> jupyterServers (fst (step inh cfg (settle h r) s)) = jupyterServers s"
    and "r = None \<Longrightarrow>
           \<exists>server. map_of (jupyterServers (fst (step inh cfg (settle h r) s))) k = Some server
             \<and> childProcess server = h"
proof -
  note d = in_flightD[OF assms]
  from d(4) obtain w where w: "find_wait h s = Some w" "userId (waitServer w) = k" by blast
  from find_wait_Some[OF w(1)] have win: "w \<in> set (readinessWaits s)"
    and wh: "childProcess (waitServer w) = h" by auto
  have gone: "k \<notin> (\<lambda>w. userId (waitServer w)) `
      set (filter (\<lambda>w. childProcess (waitServer w) \<noteq> h) (readinessWaits s))"
  proof
    assume "k \<in> (\<lambda>w. userId (waitServer w)) `
      set (filter (\<lambda>w. childProcess (waitServer w) \<noteq> h) (readinessWaits s))"
    then obtain w' where w': "w' \<in> set (readinessWaits s)" "childProcess (waitServer w') \<noteq> h"
      "userId (waitServer w') = k" by auto
    from inv_same_key[OF d(1) w'(1) win] w'(3) w(2) have "w' = w" by simp
    with w'(2) wh show False by simp
  qed
  show "snd (step inh cfg (settle h r) s) = map (\<lambda>cb. Invoke k cb r) cbs"
    using w d(2)
    by (cases r) (simp_all add: step_def fulfilled_effect rejected_effect parked_def)
  show "supervisor_inv inh (fst (step inh cfg (settle h r) s))"
    using d(1) by (cases r) (simp_all add: step_def inv_fulfilled inv_rejected)
  show "callbackManager (fst (step inh cfg (settle h r) s)) k = None"
    using w by (cases r) (simp_all add: step_def fulfilled_effect rejected_effect)
  show "k \<notin> set (waiting_keys (fst (step inh cfg (settle h r) s)))"
    using w gone
    by (cases r) (simp_all add: step_def fulfilled_effect rejected_effect waiting_keys_def)
  show "map_of (jupyterServers (fst (step inh cfg (settle h r) s))) k = None" if "r \<noteq> None"
    using that w d(3) by (cases r) (simp_all add: step_def rejected_effect)
  show "jupyterServers (fst (step inh cfg (settle h r) s)) = jupyterServers s" if "r \<noteq> None"
    using that w by (cases r) (simp_all add: step_def rejected_effect)
  show "\<exists>server. map_of (jupyterServers (fst (step inh cfg (settle h r) s))) k = Some server
             \<and> childProcess server = h" if "r = None"
    using that w wh by (simp add: step_def fulfilled_effect update_conv')
qed

text \<open>
  Single flight, for \<^verbatim>\<open>part_000\<close> and for every name of \<^verbatim>\<open>jupyter.ts\<close> that the
  object does not inherit. In every reachable state no two pending waits, that
  is no two spawn attempts in flight, are for the same key. When such a key is
  absent with no start in flight and a call of \<^verbatim>\<open>startForUser\<close> spawns the
  process, then whatever handlers run before the promise of that process
  settles (further calls for the same key among them, in any number), the run
  holds exactly one spawn for the key; no callback of the key is called before
  the promise settles; and when it settles, the callback of the first call and
  those of the further calls are called in the order of the calls, each with
  the outcome of the one attempt: with null when the port answered, with the
  same error when the wait failed. When the first call fails at once
  (\<^verbatim>\<open>getUserDir\<close> or \<^verbatim>\<open>spawn\<close> throws), its callback is called with that error
  and nothing is in flight. A call with an inherited name spawns nothing and
  calls back on the next tick.
\<close>

theorem single_flight_start:
  assumes "reachable inh cfg s"
  shows "distinct (waiting_keys s) \<and>
    (inh k \<longrightarrow> startForUser inh cfg k cb env s = (s, [NextTick cb])) \<and>
    (\<not> inh k \<and> map_of (jupyterServers s) k = None \<and> callbackManager s k = None \<and>
     (userDir env = Inl e \<or> (\<exists>d'. userDir env = Inr d') \<and> spawnThrows env = Some e) \<longrightarrow>
       startForUser inh cfg k cb env s = (s, [Invoke k cb (Some e)])) \<and>
    (\<not> inh k \<and> map_of (jupyterServers s) k = None \<and> callbackManager s k = None \<and>
     userDir env = Inr d \<and> spawnThrows env = None \<and>
     (\<forall>ev \<in> set evs. \<not> settles (nextHandle s) ev) \<longrightarrow>
       length (filter (is_spawn_for k)
         (snd (run inh cfg (StartForUser k cb env # evs @ [settle (nextHandle s) r]) s))) = 1 \<and>
       filter (is_invoke_for k) (snd (run inh cfg (StartForUser k cb env # evs) s)) = [] \<and>
       filter (is_invoke_for k)
         (snd (run inh cfg (StartForUser k cb env # evs @ [settle (nextHandle s) r]) s)) =
         map (\<lambda>c. Invoke k c r) (cb # callers k evs))"
proof -
  from assms have i: "supervisor_inv inh s" by (rule reachable_inv)
  then have one: "distinct (waiting_keys s)" by (simp add: supervisor_inv_def)
  have main: "length (filter (is_spawn_for k)
         (snd (run inh cfg (StartForUser k cb env # evs @ [settle (nextHandle s) r]) s))) = 1 \<and>
       filter (is_invoke_for k) (snd (run inh cfg (StartForUser k cb env # evs) s)) = [] \<and>
       filter (is_invoke_for k)
         (snd (run inh cfg (StartForUser k cb env # evs @ [settle (nextHandle s) r]) s)) =
         map (\<lambda>c. Invoke k c r) (cb # callers k evs)"
    if held: "\<not> inh k"
      and absent: "map_of (jupyterServers s) k = None" "callbackManager s k = None"
      and env: "userDir env = Inr d" "spawnThrows env = None"
      and quiet: "\<forall>ev \<in> set evs. \<not> settles (nextHandle s) ev"
  proof -
    let ?h = "nextHandle s"
    let ?s1 = "fst (step inh cfg (StartForUser k cb env) s)"
    let ?s2 = "fst (run inh cfg evs ?s1)"
    from start_in_flight[where inh = inh, OF i held absent env, where cb = cb and cfg = cfg]
    have f1: "in_flight inh k ?h [cb] ?s1"
      and o1: "snd (step inh cfg (StartForUser k cb env) s) =
                 [Spawn ?h k (jupyterPort cfg) (notebookDir env d)]"
      by (simp_all add: step_def)
    from in_flight_run[OF f1 quiet, where cfg = cfg]
    have f2: "in_flight inh k ?h (cb # callers k evs) ?s2"
      and o2: "filter (is_spawn_for k) (snd (run inh cfg evs ?s1)) = []"
        "filter (is_invoke_for k) (snd (run inh cfg evs ?s1)) = []"
      by simp_all
    from settle_in_flight(1)[OF f2, where cfg = cfg and r = r]
    have o3: "snd (step inh cfg (settle ?h r) ?s2) = map (\<lambda>c. Invoke k c r) (cb # callers k evs)" .
    have o3s: "filter (is_spawn_for k) (map (\<lambda>c. Invoke k c r) cs) = []"
      and o3i: "filter (is_invoke_for k) (map (\<lambda>c. Invoke k c r) cs) = map (\<lambda>c. Invoke k c r) cs"
      for cs :: "'b list"
      by (induction cs) simp_all
    have out: "snd (run inh cfg (StartForUser k cb env # evs @ [settle ?h r]) s) =
        snd (step inh cfg (StartForUser k cb env) s) @ snd (run inh cfg evs ?s1) @
        snd (step inh cfg (settle ?h r) ?s2)"
      by (simp add: run_Cons run_append del: run.simps) (simp split: prod.splits)
    have before: "snd (run inh cfg (StartForUser k cb env # evs) s) =
        snd (step inh cfg (StartForUser k cb env) s) @ snd (run inh cfg evs ?s1)"
      by (simp add: run_Cons del: run.simps)
    show ?thesis
      unfolding out before o1 o3 using o2 o3s o3i by simp
  qed
  have failing: "startForUser inh cfg k cb env s = (s, [Invoke k cb (Some e)])"
    if "\<not> inh k" "map_of (jupyterServers s) k = None" "callbackManager s k = None"
      "userDir env = Inl e \<or> (\<exists>d'. userDir env = Inr d') \<and> spawnThrows env = Some e"
    using that by (rule start_fails)
  have ready: "startForUser inh cfg k cb env s = (s, [NextTick cb])" if "inh k"
    using that by (rule start_inherited)
  from one ready failing main show ?thesis by blast
qed

lemma waiting_in_flight:
  assumes "reachable inh cfg s" and "find_wait h s = Some w"
  shows "\<exists>cbs. in_flight inh (userId (waitServer w)) h cbs s"
proof -
  from assms(1) have i: "supervisor_inv inh s" by (rule reachable_inv)
  from find_wait_Some[OF assms(2)] have "w \<in> set (readinessWaits s)" by simp
  from inv_waitD(1)[OF i this] obtain cbs where
    "callbackManager s (userId (waitServer w)) = Some cbs" by blast
  with i assms(2) show ?thesis
    by (auto simp: in_flight_def)
qed

text \<open>
  Claim C3. The wait is made with a polling interval of 100 ms and a timeout of
  15000 ms. When the promise of a pending wait is rejected, every callback
  parked for its key is called with the error of the rejection, in order; the
  server record is not stored (\<^verbatim>\<open>jupyterServers\<close> is as before and has no entry
  for the key); the key has no waiter list and no pending wait left, so it is
  absent; and a following call of \<^verbatim>\<open>startForUser\<close> for the key, when its spawn
  goes through, spawns a process with a handle no earlier wait had, parks its
  own callback as the only waiter and has a wait pending again.
\<close>

theorem readiness_timeout_resets_key:
  assumes "reachable inh cfg s" and "find_wait h s = Some w"
  shows "(let k = userId (waitServer w); s' = fst (waitRejected h e s);
              s'' = fst (startForUser inh cfg k cb env s') in
     retryTimeMs w = 100 \<and> timeOutMs w = 15000 \<and>
     (\<exists>cbs. callbackManager s k = Some cbs \<and>
        snd (waitRejected h e s) = map (\<lambda>c. Invoke k c (Some e)) cbs) \<and>
     jupyterServers s' = jupyterServers s \<and> map_of (jupyterServers s') k = None \<and>
     callbackManager s' k = None \<and> k \<notin> set (waiting_keys s') \<and>
     (userDir env = Inr d \<and> spawnThrows env = None \<longrightarrow>
        snd (startForUser inh cfg k cb env s') =
          [Spawn (nextHandle s') k (jupyterPort cfg) (notebookDir env d)] \<and>
        callbackManager s'' k = Some [cb] \<and> k \<in> set (waiting_keys s'') \<and>
        (\<forall>w' \<in> set (readinessWaits s). childProcess (waitServer w') < nextHandle s')))"
proof -
  let ?k = "userId (waitServer w)"
  let ?s' = "fst (waitRejected h e s)"
  from assms(1) have i: "supervisor_inv inh s" by (rule reachable_inv)
  from find_wait_Some[OF assms(2)] have win: "w \<in> set (readinessWaits s)" by simp
  from waiting_in_flight[OF assms] obtain cbs where f: "in_flight inh ?k h cbs s" by blast
  have st: "step inh cfg (settle h (Some e)) s = waitRejected h e s"
    by (simp add: step_def)
  note r = settle_in_flight[OF f, where cfg = cfg and r = "Some e", unfolded st]
  have nh: "nextHandle ?s' = nextHandle s"
    by (simp add: rejected_effect[OF assms(2)])
  have fresh: "\<forall>w' \<in> set (readinessWaits s). childProcess (waitServer w') < nextHandle ?s'"
    using inv_waitD(3)[OF i] nh by simp
  have again: "snd (startForUser inh cfg ?k cb env ?s') =
          [Spawn (nextHandle ?s') ?k (jupyterPort cfg) (notebookDir env d)] \<and>
        callbackManager (fst (startForUser inh cfg ?k cb env ?s')) ?k = Some [cb] \<and>
        ?k \<in> set (waiting_keys (fst (startForUser inh cfg ?k cb env ?s')))"
    if env: "userDir env = Inr d" "spawnThrows env = None"
  proof -
    from r(5) have absent: "map_of (jupyterServers ?s') ?k = None" by simp
    have held: "\<not> inh ?k" by (rule inv_waitD(7)[OF i win])
    note g = start_in_flight[where inh = inh, OF r(2) held absent r(3) env, where cb = cb and cfg = cfg]
    then have f': "in_flight inh ?k (nextHandle ?s') [cb]
        (fst (startForUser inh cfg ?k cb env ?s'))"
      by simp
    from in_flightD(4)[OF f'] obtain w' where
      "find_wait (nextHandle ?s') (fst (startForUser inh cfg ?k cb env ?s')) = Some w'"
      "userId (waitServer w') = ?k" by blast
    with find_wait_Some[OF this(1)]
    have "?k \<in> set (waiting_keys (fst (startForUser inh cfg ?k cb env ?s')))"
      unfolding waiting_keys_def set_map by (metis (mono_tags, lifting) imageI)
    with g in_flightD(2)[OF f'] show ?thesis by simp
  qed
  from inv_waitD(5,6)[OF i win] in_flightD(2)[OF f] r(1) r(6) r(5) r(3) r(4) again fresh
  show ?thesis
    unfolding Let_def by simp
qed

text \<open>
  Claim C4, as the code has it. When the child of a pending wait exits, the exit
  handler calls no callback and leaves the pending waits, the waiter lists and
  the stored servers as they are: the wait for the key stays pending and its
  callbacks stay parked. No server is stored for the key, and the exit handler
  of the process is gone. The key becomes absent only when the wait itself fails: then the
  parked callbacks are called with that error, and the key has no server, no
  waiter list and no pending wait.
\<close>

theorem exit_while_starting_keeps_waiting:
  assumes "reachable inh cfg s" and "find_wait h s = Some w"
  shows "(let k = userId (waitServer w); s' = fst (exitHandler h s) in
     snd (exitHandler h s) = [] \<and>
     readinessWaits s' = readinessWaits s \<and> find_wait h s' = Some w \<and>
     callbackManager s' = callbackManager s \<and> callbackManager s' k \<noteq> None \<and>
     jupyterServers s' = jupyterServers s \<and> map_of (jupyterServers s') k = None \<and>
     (\<forall>server \<in> set (exitHandlers s'). childProcess server \<noteq> h) \<and>
     (\<exists>cbs. callbackManager s' k = Some cbs \<and>
        snd (waitRejected h e s') = map (\<lambda>c. Invoke k c (Some e)) cbs) \<and>
     map_of (jupyterServers (fst (waitRejected h e s'))) k = None \<and>
     callbackManager (fst (waitRejected h e s')) k = None \<and>
     k \<notin> set (waiting_keys (fst (waitRejected h e s'))))"
proof -
  let ?k = "userId (waitServer w)"
  let ?s' = "fst (exitHandler h s)"
  have ex: "?s' = fst (step inh cfg (ProcessExit h) s)"
    by (simp add: step_def)
  have reach': "reachable inh cfg ?s'"
    unfolding ex by (rule reachable_step[OF assms(1)])
  have same: "snd (exitHandler h s) = []" "readinessWaits ?s' = readinessWaits s"
    "callbackManager ?s' = callbackManager s"
    "\<forall>server \<in> set (exitHandlers ?s'). childProcess server \<noteq> h"
    by (auto simp: exitHandler_def find_None_iff split: option.splits)
  from same(2) assms(2) have fw: "find_wait h ?s' = Some w"
    by (simp add: find_wait_def)
  from assms(1) have i: "supervisor_inv inh s" by (rule reachable_inv)
  from find_wait_Some[OF assms(2)] have win: "w \<in> set (readinessWaits s)"
    and wh: "childProcess (waitServer w) = h" by auto
  have kept: "jupyterServers ?s' = jupyterServers s"
  proof (cases "find (\<lambda>server. childProcess server = h) (exitHandlers s)")
    case None
    then show ?thesis by (simp add: exitHandler_def)
  next
    case (Some server)
    then have "server \<in> set (exitHandlers s)" and "childProcess server = h"
      by (auto simp: find_Some_iff)
    with inv_exitD(2)[OF i this(1) win] wh have "userId server = ?k" by simp
    with inv_waitD(2)[OF i win] have "AList.delete (userId server) (jupyterServers s) =
        jupyterServers s"
      by (simp add: delete_absent)
    with Some show ?thesis by (simp add: exitHandler_def)
  qed
  from waiting_in_flight[OF reach' fw] obtain cbs where f: "in_flight inh ?k h cbs ?s'" by blast
  have st: "step inh cfg (settle h (Some e)) ?s' = waitRejected h e ?s'"
    by (simp add: step_def)
  note r = settle_in_flight[OF f, where cfg = cfg and r = "Some e", unfolded st]
  from same kept fw in_flightD(2,3)[OF f] r(1) r(5) r(3) r(4)
  show ?thesis
    unfolding Let_def by simp
qed

lemma starting0_eval:
  "starting0 =
     \<lparr>jupyterServers = [], callbackManager = [''anonymous'' \<mapsto> [''cb1'']],
      readinessWaits = [new_wait (new_server settings0 ''anonymous'' env0 ''/content/datalab'' 0)],
      exitHandlers = [new_server settings0 ''anonymous'' env0 ''/content/datalab'' 0],
      nextHandle = 1\<rparr>"
  by (simp add: starting0_def step_def start_spawns init_supervisor_def env0_def
      objectPrototype_def)

lemma starting0_reachable: "reachable objectPrototype settings0 starting0"
  unfolding starting0_def by (rule reachable_step[OF reachable_init])

lemma starting0_wait:
  "find_wait 0 starting0 =
     Some (new_wait (new_server settings0 ''anonymous'' env0 ''/content/datalab'' 0))"
  by (simp add: starting0_eval find_wait_def new_wait_def new_server_def)

lemma starting0_fields:
  "callbackManager starting0 ''anonymous'' = Some [''cb1'']"
  "jupyterServers starting0 = []"
  "nextHandle starting0 = 1"
  "waiting_keys starting0 = [''anonymous'']"
  by (simp_all add: starting0_eval waiting_keys_def new_wait_def new_server_def)

lemma example_values:
  "userDir env0 = Inr ''/content/datalab''" "spawnThrows env0 = None"
  "jupyterPort settings0 = 9000" "notebookDir env0 ''/content/datalab'' = ''/content/datalab''"
  "userId (waitServer (new_wait (new_server settings0 ''anonymous'' env0 ''/content/datalab'' 0))) =
     ''anonymous''"
  by (simp_all add: jupyterPort_def notebookDir_def settings0_def env0_def new_wait_def
      new_server_def)

text \<open>
  The theorem at a run from the initial state: three calls for \<^verbatim>\<open>anonymous\<close>,
  the exit of the child between them, then the port answers; at a first call
  whose \<^verbatim>\<open>spawn\<close> throws; and at a call for \<^verbatim>\<open>toString\<close>.
\<close>

theorem single_flight_start_witness:
  "reachable objectPrototype settings0 (init_supervisor :: (string, string) supervisor) \<and>
   length (filter (is_spawn_for ''anonymous'')
     (snd (run objectPrototype settings0
        [StartForUser ''anonymous'' ''cb1'' env0, StartForUser ''anonymous'' ''cb2'' env0,
         ProcessExit 0, StartForUser ''anonymous'' ''cb3'' env0, WaitFulfilled 0]
        init_supervisor))) = 1 \<and>
   filter (is_invoke_for ''anonymous'')
     (snd (run objectPrototype settings0
        [StartForUser ''anonymous'' ''cb1'' env0, StartForUser ''anonymous'' ''cb2'' env0,
         ProcessExit 0, StartForUser ''anonymous'' ''cb3'' env0, WaitFulfilled 0]
        init_supervisor)) =
     [Invoke ''anonymous'' ''cb1'' None, Invoke ''anonymous'' ''cb2'' None,
      Invoke ''anonymous'' ''cb3'' None] \<and>
   startForUser objectPrototype settings0 ''anonymous'' ''cb1''
      (env0\<lparr>spawnThrows := Some (Thrown ''ENOENT'')\<rparr>)
      (init_supervisor :: (string, string) supervisor) =
     (init_supervisor, [Invoke ''anonymous'' ''cb1'' (Some (Thrown ''ENOENT''))]) \<and>
   startForUser objectPrototype settings0 ''toString'' ''cb1'' env0
      (init_supervisor :: (string, string) supervisor) =
     (init_supervisor, [NextTick ''cb1''])"
proof -
  have r: "reachable objectPrototype settings0 (init_supervisor :: (string, string) supervisor)"
    by (rule reachable_init)
  have z: "map_of (jupyterServers (init_supervisor :: (string, string) supervisor))
        ''anonymous'' = None"
    "callbackManager (init_supervisor :: (string, string) supervisor) ''anonymous'' = None"
    "nextHandle (init_supervisor :: (string, string) supervisor) = 0"
    by (simp_all add: init_supervisor_def)
  have n: "\<not> objectPrototype ''anonymous''" "objectPrototype ''toString''"
    by (simp_all add: objectPrototype_def)
  have f: "userDir (env0\<lparr>spawnThrows := Some (Thrown ''ENOENT'')\<rparr>) = Inr ''/content/datalab''"
    "spawnThrows (env0\<lparr>spawnThrows := Some (Thrown ''ENOENT'')\<rparr>) = Some (Thrown ''ENOENT'')"
    by (simp_all add: env0_def)
  from single_flight_start[OF r, where k = "''anonymous''" and env = env0
      and d = "''/content/datalab''" and cb = "''cb1''" and r = None
      and evs = "[StartForUser ''anonymous'' ''cb2'' env0, ProcessExit 0,
                  StartForUser ''anonymous'' ''cb3'' env0]"]
    single_flight_start[OF r, where k = "''anonymous''"
      and env = "env0\<lparr>spawnThrows := Some (Thrown ''ENOENT'')\<rparr>"
      and e = "Thrown ''ENOENT''" and cb = "''cb1''"]
    single_flight_start[OF r, where k = "''toString''" and env = env0 and cb = "''cb1''"] r n
  show ?thesis
    unfolding z f by (simp add: example_values del: run.simps)
qed


text \<open>The theorem at the state after the first call for \<^verbatim>\<open>anonymous\<close>.\<close>

theorem readiness_timeout_resets_key_witness:
  "reachable objectPrototype settings0 starting0 \<and>
   snd (waitRejected 0 (Thrown ''timeout'') starting0) =
     [Invoke ''anonymous'' ''cb1'' (Some (Thrown ''timeout''))] \<and>
   map_of (jupyterServers (fst (waitRejected 0 (Thrown ''timeout'') starting0)))
      ''anonymous'' = None \<and>
   callbackManager (fst (waitRejected 0 (Thrown ''timeout'') starting0)) ''anonymous'' = None \<and>
   snd (startForUser objectPrototype settings0 ''anonymous'' ''cb2'' env0
          (fst (waitRejected 0 (Thrown ''timeout'') starting0))) =
     [Spawn 1 ''anonymous'' 9000 ''/content/datalab'']"
proof -
  have n: "nextHandle (fst (waitRejected 0 (Thrown ''timeout'') starting0)) = 1"
    by (simp add: rejected_effect[OF starting0_wait] starting0_fields)
  note t = readiness_timeout_resets_key[OF starting0_reachable starting0_wait,
      where e = "Thrown ''timeout''" and env = env0 and d = "''/content/datalab''"
      and cb = "''cb2''", unfolded Let_def example_values n starting0_fields]
  from t starting0_reachable show ?thesis
    by auto
qed

text \<open>The theorem at the state after the first call for \<^verbatim>\<open>anonymous\<close>.\<close>

theorem exit_while_starting_keeps_waiting_witness:
  "reachable objectPrototype settings0 starting0 \<and>
   snd (exitHandler 0 starting0) = [] \<and>
   readinessWaits (fst (exitHandler 0 starting0)) = readinessWaits starting0 \<and>
   callbackManager (fst (exitHandler 0 starting0)) ''anonymous'' = Some [''cb1''] \<and>
   snd (waitRejected 0 (Thrown ''timeout'') (fst (exitHandler 0 starting0))) =
     [Invoke ''anonymous'' ''cb1'' (Some (Thrown ''timeout''))]"
proof -
  note t = exit_while_starting_keeps_waiting[OF starting0_reachable starting0_wait,
      where e = "Thrown ''timeout''", unfolded Let_def example_values]
  from t starting0_reachable starting0_fields(1) show ?thesis
    by auto
qed

text \<open>
  Claim C4 as stated fails: after a call of \<^verbatim>\<open>startForUser\<close> and the exit of
  the spawned child, the wait for \<^verbatim>\<open>anonymous\<close> is still pending and the
  callback is still parked; nothing but the spawn has happened.
\<close>

theorem exit_while_starting_leaves_wait_pending:
  "waiting_keys (fst (run objectPrototype settings0
      [StartForUser ''anonymous'' ''cb1'' env0, ProcessExit 0] init_supervisor)) =
     [''anonymous''] \<and>
   callbackManager (fst (run objectPrototype settings0
      [StartForUser ''anonymous'' ''cb1'' env0, ProcessExit 0] init_supervisor))
      ''anonymous'' = Some [''cb1''] \<and>
   snd (run objectPrototype settings0
      [StartForUser ''anonymous'' ''cb1'' env0, ProcessExit 0] init_supervisor) =
     [Spawn 0 ''anonymous'' 9000 ''/content/datalab'']"
proof -
  have a: "step objectPrototype settings0 (StartForUser ''anonymous'' ''cb1'' env0)
        init_supervisor =
      (starting0, [Spawn 0 ''anonymous'' 9000 ''/content/datalab''])"
    by (simp add: starting0_eval step_def start_spawns init_supervisor_def env0_def
        jupyterPort_def notebookDir_def settings0_def objectPrototype_def)
  have b: "step objectPrototype settings0 (ProcessExit 0) starting0 =
      (starting0\<lparr>exitHandlers := []\<rparr>, [])"
    by (simp add: step_def exitHandler_def starting0_eval new_server_def)
  show ?thesis
    by (simp add: a b starting0_fields waiting_keys_def)
       (simp add: starting0_eval new_wait_def new_server_def)
qed

lemma close_loop_kills:
  "close_loop killThrows servers =
     map (\<lambda>(n, server). Kill (childProcess server) ''SIGHUP'') servers"
  by (induction servers) (auto split: option.splits)

lemma close_never_raises:
  "close forIn killThrows s =
     Inr (s\<lparr>jupyterServers := []\<rparr>,
          map (\<lambda>(n, server). Kill (childProcess server) ''SIGHUP'')
            (forIn (jupyterServers s)))"
  by (simp add: close_def close_loop_kills)

lemma close_signals_every_process:
  assumes "set (forIn (jupyterServers s)) = set (jupyterServers s)"
    and "close forIn killThrows s = Inr (s', out)"
  shows "set out = (\<lambda>(n, server). Kill (childProcess server) ''SIGHUP'') ` set (jupyterServers s)"
    and "jupyterServers s' = []"
  using assms by (auto simp: close_never_raises)

lemma close_single_when_present:
  "jupyterServer s = Some server \<Longrightarrow>
     close_single killThrows s =
       Inr (s\<lparr>jupyterServers := []\<rparr>, [Kill (childProcess server) ''SIGHUP''])"
  by (simp add: close_single_def split: option.splits)

lemma close_single_state:
  fixes s :: "(unit, 'cb) supervisor"
  shows "fst (step inh cfg (Close forIn killThrows) s) =
           (case close_single killThrows s of Inl e \<Rightarrow> s | Inr r \<Rightarrow> fst r)"
proof (cases "jupyterServer s")
  case None
  then have "jupyterServers s = []"
    by (cases "jupyterServers s") (auto simp: jupyterServer_def)
  with None show ?thesis
    by (simp add: step_def close_def close_single_def)
next
  case (Some server)
  then show ?thesis
    by (simp add: step_def close_def close_single_def split: option.splits)
qed

text \<open>
  Claim C8 holds for \<^verbatim>\<open>close\<close> of \<^verbatim>\<open>jupyter.ts\<close> (\<open>close_never_raises\<close>) and
  fails for \<^verbatim>\<open>close\<close> of \<^verbatim>\<open>part_000\<close>: in the state with no server, here the
  initial one, it throws a TypeError.
\<close>

theorem close_single_raises_when_absent:
  "jupyterServer (init_supervisor :: (unit, string) supervisor) = None \<and>
   close_single (\<lambda>h. None) (init_supervisor :: (unit, string) supervisor) = Inl TypeError"
  by (simp add: close_single_def jupyterServer_def init_supervisor_def)

section \<open>Properties of the router\<close>

text \<open>
  Claim C10, as the code has it. The pattern is not anchored: when the request
  path, or the Referer value, holds \<^verbatim>\<open>/_proxy/\<close>, a non-empty run of digits and
  then its end or a slash, at whatever position, \<^verbatim>\<open>getRequestPort\<close> of either
  variant returns a non-empty run of digits. The router of
  \<^verbatim>\<open>web/datalab/server.ts\<close> then hands the request to the reverse proxy with
  that port, and so does the router of \<^verbatim>\<open>server.ts\<close> unless the path is a
  socket.io path, which it leaves to socket.io; neither consults the prefixes
  of the backend routes.
\<close>

theorem unanchored_pattern_reaches_reverse_proxy:
  assumes "ds \<noteq> []" and "list_all isDigit ds" and "a = [] \<or> hd a = CHR ''/''"
    and "urlpath = b @ ''/_proxy/'' @ ds @ a \<or>
         header_referer request = Some (b @ ''/_proxy/'' @ ds @ a)"
    and "rp = getRequestPort \<or> rp = getRequestPort_socketio sp"
  shows "\<exists>p. rp request urlpath = Some p \<and> p \<noteq> [] \<and> list_all isDigit p \<and>
           datalab_uncheckedRequestHandler rp request urlpath = ReverseProxy p \<and>
           uncheckedRequestHandler isSocketIoPath rp request urlpath =
             (if isSocketIoPath urlpath then SocketIo else ReverseProxy p)"
proof -
  let ?x = "b @ ''/_proxy/'' @ ds @ a"
  let ?ref = "headerAsString (header_referer request)"
  have "regex_exec ?x \<noteq> None"
    by (rule regex_exec_complete[OF assms(1-3)])
  then have hit: "getPort (Some ?x) \<noteq> None"
    by (auto simp: getPort_def split: option.splits)
  have "getPort (Some urlpath) \<noteq> None \<or> getPort ?ref \<noteq> None"
    using assms(4) hit by (auto simp: headerAsString_def)
  then obtain p where p: "getPort (Some urlpath) = Some p \<or>
      getPort (Some urlpath) = None \<and> getPort ?ref = Some p"
    by (cases "getPort (Some urlpath)") auto
  then have pd: "p \<noteq> [] \<and> list_all isDigit p"
    using getPort_Some by blast
  from p have "getRequestPort request urlpath = Some p \<and>
      getRequestPort_socketio sp request urlpath = Some p"
    by (auto simp: getRequestPort_cases)
  with assms(5) have rp: "rp request urlpath = Some p"
    by auto
  with pd show ?thesis
    by (auto simp: uncheckedRequestHandler_def datalab_uncheckedRequestHandler_def)
qed

text \<open>
  The theorem at the claim's example: \<^verbatim>\<open>/files/_proxy/123/x\<close> goes to the port
  123, though its prefix \<^verbatim>\<open>/files\<close> is one of the backend routes.
\<close>

theorem unanchored_pattern_reaches_reverse_proxy_witness:
  "uncheckedRequestHandler (prefix ''/socket.io/'') getRequestPort
      \<lparr>req_url = ''/files/_proxy/123/x'', header_origin = None, header_referer = None\<rparr>
      ''/files/_proxy/123/x'' = ReverseProxy ''123'' \<and>
   datalab_uncheckedRequestHandler getRequestPort
      \<lparr>req_url = ''/files/_proxy/123/x'', header_origin = None, header_referer = None\<rparr>
      ''/files/_proxy/123/x'' = ReverseProxy ''123'' \<and>
   server_handleRequest ''/files/_proxy/123/x'' = ToJupyter"
proof -
  let ?r = "\<lparr>req_url = ''/files/_proxy/123/x'', header_origin = None, header_referer = None\<rparr>"
  have d: "''123'' \<noteq> []" "list_all isDigit ''123''" "''/x'' = [] \<or> hd ''/x'' = CHR ''/''"
    by (simp_all add: isDigit_def)
  have u: "''/files/_proxy/123/x'' = ''/files'' @ ''/_proxy/'' @ ''123'' @ ''/x'' \<or>
      header_referer ?r = Some (''/files'' @ ''/_proxy/'' @ ''123'' @ ''/x'')"
    by simp
  have g: "getRequestPort ?r ''/files/_proxy/123/x'' = Some ''123''"
    by (simp add: getRequestPort_def getPort_def js_or_def truthy_def match_here_def isDigit_def)
  from unanchored_pattern_reaches_reverse_proxy[OF d u, of getRequestPort "''8084''"
      "prefix ''/socket.io/''"] g
  show ?thesis
    by (simp add: server_handleRequest_def)
qed

text \<open>
  Claim C10 as stated fails on the router of \<^verbatim>\<open>server.ts\<close>: a request for
  \<^verbatim>\<open>/socket.io/\<close> whose Referer holds \<^verbatim>\<open>/_proxy/123/\<close> gets the port 123 from
  \<^verbatim>\<open>getRequestPort\<close> and is left to socket.io, with the test for socket.io
  paths that \<^verbatim>\<open>getRequestPort\<close> itself uses.
\<close>

theorem socket_io_path_is_not_reverse_proxied:
  "getRequestPort
      \<lparr>req_url = ''/socket.io/'', header_origin = None,
       header_referer = Some ''http://localhost:8080/_proxy/123/''\<rparr>
      ''/socket.io/'' = Some ''123'' \<and>
   uncheckedRequestHandler (prefix ''/socket.io/'') getRequestPort
      \<lparr>req_url = ''/socket.io/'', header_origin = None,
       header_referer = Some ''http://localhost:8080/_proxy/123/''\<rparr>
      ''/socket.io/'' = SocketIo"
  by (simp add: uncheckedRequestHandler_def getRequestPort_def getPort_def js_or_def truthy_def
      headerAsString_def match_here_def isDigit_def)

lemma socketHandler_tunnel:
  "socketHandler pathname = NotProxied \<longleftrightarrow> pathname = ''/http_over_websocket''"
  by (simp add: socketHandler_def httpOverWebSocketPath_def)

lemma datalab_socketHandler_tunnel:
  "snd (datalab_socketHandler pathPrefix request) = NotProxied \<longleftrightarrow>
     trimBasePath pathPrefix (req_url request) = ''/http_over_websocket''"
  by (simp add: datalab_socketHandler_def httpOverWebSocketPath_def Let_def)

text \<open>
  Claim C7 holds for \<^verbatim>\<open>socketHandler\<close> of \<^verbatim>\<open>server.ts\<close>, which compares the
  parsed path (\<open>socketHandler_tunnel\<close>), and fails for \<^verbatim>\<open>socketHandler\<close> of
  \<^verbatim>\<open>web/datalab/server.ts\<close>, which compares the whole URL: an upgrade for
  \<^verbatim>\<open>/http_over_websocket?x=1\<close> is handed to \<^verbatim>\<open>jupyter.handleSocket\<close>.
\<close>

theorem datalab_socketHandler_proxies_tunnel_with_query:
  "datalab_socketHandler ''/''
      \<lparr>req_url = ''/http_over_websocket?x=1'', header_origin = None, header_referer = None\<rparr> =
     (\<lparr>req_url = ''/http_over_websocket?x=1'', header_origin = None, header_referer = None\<rparr>,
      HandleSocket)"
  by (simp add: datalab_socketHandler_def trimBasePath_def httpOverWebSocketPath_def)

end
